theory Spec2Isabelle
  imports Main
begin

section \<open>Python string primitives used by the ingester\<close>

text \<open>
  Strings are lists of characters; a character stands for a code point below 256.
  \<^verbatim>\<open>str.strip()\<close> removes the characters for which \<^verbatim>\<open>str.isspace()\<close> holds:
  in that range the code points 9 to 13, 28 to 32, 133 and 160.
\<close>

definition is_space :: "char \<Rightarrow> bool" where
  "is_space c =
     (let n = (of_char c :: nat)
      in (9 \<le> n \<and> n \<le> 13) \<or> (28 \<le> n \<and> n \<le> 32) \<or> n = 133 \<or> n = 160)"

definition py_lstrip :: "string \<Rightarrow> string" where
  "py_lstrip s = dropWhile is_space s"

definition py_rstrip :: "string \<Rightarrow> string" where
  "py_rstrip s = rev (dropWhile is_space (rev s))"

definition py_strip :: "string \<Rightarrow> string" where
  "py_strip s = py_rstrip (py_lstrip s)"

text \<open>
  \<^verbatim>\<open>s.split(c)\<close> for a one-character separator: one piece more than there are
  separators, empty pieces included.
\<close>

fun py_split :: "char \<Rightarrow> string \<Rightarrow> string list" where
  "py_split c [] = [[]]"
| "py_split c (x # xs) =
     (if x = c then [] # py_split c xs
      else (case py_split c xs of
              [] \<Rightarrow> [[x]]
            | p # ps \<Rightarrow> (x # p) # ps))"

text \<open>
  \<^verbatim>\<open>s.replace(old, new)\<close>: the occurrences of \<open>old\<close> are found from the left and do
  not overlap; an empty \<open>old\<close> matches before every character and at the end.
\<close>

function py_replace :: "string \<Rightarrow> string \<Rightarrow> string \<Rightarrow> string" where
  "py_replace old new [] = (if old = [] then new else [])"
| "py_replace old new (c # cs) =
     (if old = [] then new @ c # py_replace old new cs
      else if take (length old) (c # cs) = old
           then new @ py_replace old new (drop (length old) (c # cs))
           else c # py_replace old new cs)"
  by pat_completeness auto
termination
  by (relation "measure (\<lambda>(old, new, s). length s)") auto

text \<open>\<^verbatim>\<open>str(n)\<close> for an integer: decimal digits, a minus sign when negative.\<close>

definition digit_char :: "nat \<Rightarrow> char" where
  "digit_char d = ''0123456789'' ! d"

fun str_nat :: "nat \<Rightarrow> string" where
  "str_nat n = (if n < 10 then [digit_char n] else str_nat (n div 10) @ [digit_char (n mod 10)])"

declare str_nat.simps [simp del]

definition str_int :: "int \<Rightarrow> string" where
  "str_int i = (if i < 0 then CHR ''-'' # str_nat (nat (- i)) else str_nat (nat i))"

section \<open>Exceptions\<close>

text \<open>
  A failure inside a library call (\<^verbatim>\<open>requests\<close>, \<^verbatim>\<open>gzip\<close>, \<^verbatim>\<open>pymongo\<close>, the
  operating system) is a \<open>fault\<close>: either an instance of a subclass of \<^verbatim>\<open>Exception\<close>,
  named by its class, or \<^verbatim>\<open>KeyboardInterrupt\<close>, which derives from
  \<^verbatim>\<open>BaseException\<close> only and can arrive during any blocking call.
\<close>

datatype fault = Library_error string | KeyboardInterrupt

datatype exn =
    Py_Exception string \<comment> \<open>\<^verbatim>\<open>Exception(msg)\<close>, raised by \<^verbatim>\<open>download_gz\<close>\<close>
  | IndexError
  | ValueError
  | FileNotFoundError
  | Fault fault

text \<open>What \<^verbatim>\<open>except Exception\<close> catches.\<close>

fun is_Exception :: "exn \<Rightarrow> bool" where
  "is_Exception (Fault KeyboardInterrupt) = False"
| "is_Exception _ = True"

section \<open>Filing records\<close>

type_synonym timestamp = nat

text \<open>
  The dictionary built by the parser. The keys \<^verbatim>\<open>ingested_at\<close> and \<^verbatim>\<open>raw_text\<close>
  are absent (\<open>None\<close>) until the store writer sets them.
\<close>

record filing =
  cik :: string
  company :: string
  form_type :: string
  date_filed :: string
  accession :: string
  file_url :: string
  ingested_at :: "timestamp option"
  raw_text :: "string option"

section \<open>Index parser\<close>

definition TARGET_FORMS :: "string set" where
  "TARGET_FORMS = {''10-K'', ''10-Q'', ''13F'', ''13D'', ''4''}"

text \<open>\<^verbatim>\<open>xs[-1]\<close>: the last element, \<^verbatim>\<open>IndexError\<close> on an empty list.\<close>

definition last_elem :: "'a list \<Rightarrow> exn + 'a" where
  "last_elem xs = (if xs = [] then Inl IndexError else Inr (last xs))"

text \<open>
  The body of the loop of \<^verbatim>\<open>parse_idx\<close> for one line: the records it appends to
  \<^verbatim>\<open>filings\<close>, or the exception it raises.
\<close>

definition parse_line :: "string \<Rightarrow> exn + filing list" where
  "parse_line line =
     (if CHR ''|'' \<in> set line then
        (let parts = map py_strip (py_split CHR ''|'' (py_strip line)) in
         if length parts = 5 then
           (case parts of
              [cik', company', form, date_filed', filename] \<Rightarrow>
                if form \<in> TARGET_FORMS then
                  (case last_elem (py_split CHR ''/'' filename) of
                     Inl e \<Rightarrow> Inl e
                   | Inr seg \<Rightarrow>
                       Inr [\<lparr>cik = cik', company = company', form_type = form,
                             date_filed = date_filed',
                             accession = py_replace ''.txt'' '''' seg,
                             file_url = ''https://www.sec.gov/Archives/'' @ filename,
                             ingested_at = None, raw_text = None\<rparr>])
                else Inr []
            | _ \<Rightarrow> Inl ValueError)
         else Inr [])
      else Inr [])"

fun parse_lines :: "filing list \<Rightarrow> string list \<Rightarrow> exn + filing list" where
  "parse_lines filings [] = Inr filings"
| "parse_lines filings (line # rest) =
     (case parse_line line of
        Inl e \<Rightarrow> Inl e
      | Inr new \<Rightarrow> parse_lines (filings @ new) rest)"

text \<open>
  The wording of the specification, for comparison with the parser: the last path
  segment of a file name is what follows its last slash, and stripping a trailing
  suffix removes it from the end only, when it is there.
\<close>

definition spec_last_segment :: "string \<Rightarrow> string" where
  "spec_last_segment s = rev (takeWhile (\<lambda>x. x \<noteq> CHR ''/'') (rev s))"

definition spec_strip_suffix :: "string \<Rightarrow> string \<Rightarrow> string" where
  "spec_strip_suffix suf s =
     (if length suf \<le> length s \<and> drop (length s - length suf) s = suf
      then take (length s - length suf) s else s)"

definition spec_accession :: "string \<Rightarrow> string" where
  "spec_accession filename = spec_strip_suffix ''.txt'' (spec_last_segment filename)"

section \<open>Index locator\<close>

text \<open>
  A \<^verbatim>\<open>datetime.date\<close>. The library admits the years 1 to 9999 only, and the days
  the month has.
\<close>

record date =
  year :: int
  month :: int
  day :: int




text \<open>
  \<^verbatim>\<open>strftime('%Y%m%d')\<close>, as the interpreter gives it from the C library: the year as
  a decimal number, not filled with zeros (\<^verbatim>\<open>date(999, 1, 1)\<close> gives
  \<^verbatim>\<open>9990101\<close>); the month and the day as two digits each, filled with a zero on the
  left.
\<close>

definition zero_pad :: "nat \<Rightarrow> string \<Rightarrow> string" where
  "zero_pad w s = replicate (w - length s) CHR ''0'' @ s"

definition strftime_Ymd :: "date \<Rightarrow> string" where
  "strftime_Ymd d =
     str_int (year d) @ zero_pad 2 (str_int (month d)) @ zero_pad 2 (str_int (day d))"

definition BASE_URL :: string where
  "BASE_URL = ''https://www.sec.gov/Archives/edgar/daily-index''"

text \<open>The date is what \<^verbatim>\<open>datetime.date.today()\<close> returned.\<close>

definition get_today_idx_url :: "date \<Rightarrow> string \<times> string" where
  "get_today_idx_url today' =
     (let y = year today';
          quarter = ''QTR'' @ str_int ((month today' - 1) div 3 + 1);
          filename = ''master.'' @ strftime_Ymd today' @ ''.idx.gz'';
          url = BASE_URL @ ''/'' @ str_int y @ ''/'' @ quarter @ ''/'' @ filename
      in (url, filename))"

section \<open>The world outside the program\<close>

text \<open>
  The program talks to the network, the clock, the document store and the file system.
  A \<open>world\<close> holds what persists: the documents of the collection, the files, and the
  trace of the calls made so far. An \<open>env\<close> says how the outside answers: the answer to
  a call may depend on the number of calls made before it, so any sequence of answers
  can be described.

  The files are bytes, one character each; \<open>dirs\<close> are the directories there are.
  \<open>decode\<close> is what reading a file in text mode with \<^verbatim>\<open>errors="ignore"\<close> makes of
  its bytes: the characters they encode, with the bytes that encode nothing dropped. A
  character of a text stands for a code point; texts with code points from 256 on are
  outside the model.

  Left out of the model: the log (no property below is about it), a full disk or a
  file that may not be written, and a response body that breaks off while it is
  streamed. A request, a decompression and a store operation can each fail with any
  exception.
\<close>

datatype http_result =
    Raises fault
  | Response int string \<comment> \<open>status code and body\<close>

datatype gunzip_result =
    Gunzip_fails fault string \<comment> \<open>the exception, and the output written before it\<close>
  | Gunzip_ok string

datatype event =
    Ev_get string
  | Ev_find string
  | Ev_insert filing
  | Ev_utcnow

record env =
  today :: date
  tmpdir :: string
  http :: "nat \<Rightarrow> string \<Rightarrow> http_result"
  utcnow :: "nat \<Rightarrow> timestamp"
  gunzip :: "string \<Rightarrow> gunzip_result"
  decode :: "string \<Rightarrow> string"
  mongo :: "nat \<Rightarrow> fault option"

record world =
  collection :: "filing list"
  files :: "string \<Rightarrow> string option"
  dirs :: "string set"
  trace :: "event list"

definition record_event :: "event \<Rightarrow> world \<Rightarrow> world" where
  "record_event ev w = w\<lparr>trace := trace w @ [ev]\<rparr>"

text \<open>
  \<^verbatim>\<open>collection.find_one({"accession": a})\<close> gives the first document with that
  accession, or \<^verbatim>\<open>None\<close>; \<^verbatim>\<open>collection.insert_one(doc)\<close> appends the document. The
  identifier the store adds to a document is not modelled. A store operation that fails
  changes nothing.
\<close>

definition find_one :: "env \<Rightarrow> world \<Rightarrow> string \<Rightarrow> (exn + filing option) \<times> world" where
  "find_one e w a =
     (case mongo e (length (trace w)) of
        Some flt \<Rightarrow> (Inl (Fault flt), record_event (Ev_find a) w)
      | None \<Rightarrow> (Inr (find (\<lambda>d. accession d = a) (collection w)), record_event (Ev_find a) w))"

definition insert_one :: "env \<Rightarrow> world \<Rightarrow> filing \<Rightarrow> (exn + unit) \<times> world" where
  "insert_one e w doc =
     (case mongo e (length (trace w)) of
        Some flt \<Rightarrow> (Inl (Fault flt), record_event (Ev_insert doc) w)
      | None \<Rightarrow>
          (Inr (), (record_event (Ev_insert doc) w)\<lparr>collection := collection w @ [doc]\<rparr>))"

definition datetime_utcnow :: "env \<Rightarrow> world \<Rightarrow> timestamp \<times> world" where
  "datetime_utcnow e w = (utcnow e (length (trace w)), record_event Ev_utcnow w)"

section \<open>Fetcher\<close>

text \<open>\<^verbatim>\<open>r.iter_content(n)\<close>: the body in pieces of \<open>n\<close> bytes, the last one shorter.\<close>

function iter_content :: "nat \<Rightarrow> string \<Rightarrow> string list" where
  "iter_content n s = (if s = [] \<or> n = 0 then [] else take n s # iter_content n (drop n s))"
  by pat_completeness auto
termination
  by (relation "measure (\<lambda>(n, s). length s)") auto

declare iter_content.simps [simp del]

definition download_gz :: "env \<Rightarrow> world \<Rightarrow> string \<Rightarrow> string \<Rightarrow> (exn + unit) \<times> world" where
  "download_gz e w url dest_path =
     (case http e (length (trace w)) url of
        Raises flt \<Rightarrow> (Inl (Fault flt), record_event (Ev_get url) w)
      | Response status_code body \<Rightarrow>
          if status_code \<noteq> 200
          then (Inl (Py_Exception (''Download failed with status '' @ str_int status_code)),
                record_event (Ev_get url) w)
          else (Inr (),
                (record_event (Ev_get url) w)
                  \<lparr>files := (files w)(dest_path \<mapsto> foldl (@) [] (iter_content 1024 body))\<rparr>))"

text \<open>
  The \<^verbatim>\<open>try\<close> of \<^verbatim>\<open>fetch_filing_text\<close> covers the request; its handler catches what
  \<^verbatim>\<open>except Exception\<close> catches.
\<close>

definition fetch_filing_text :: "env \<Rightarrow> world \<Rightarrow> string \<Rightarrow> (exn + string option) \<times> world" where
  "fetch_filing_text e w url =
     (case http e (length (trace w)) url of
        Response status_code body \<Rightarrow>
          if status_code = 200 then (Inr (Some body), record_event (Ev_get url) w)
          else (Inr None, record_event (Ev_get url) w)
      | Raises flt \<Rightarrow>
          if is_Exception (Fault flt) then (Inr None, record_event (Ev_get url) w)
          else (Inl (Fault flt), record_event (Ev_get url) w))"

section \<open>Decompressor\<close>

text \<open>
  \<^verbatim>\<open>os.path.dirname\<close>, for a path below a directory other than the root: what stands
  before the last slash.
\<close>

definition dirname :: "string \<Rightarrow> string" where
  "dirname p = rev (drop 1 (dropWhile (\<lambda>c. c \<noteq> CHR ''/'') (rev p)))"

text \<open>
  The \<^verbatim>\<open>with\<close> statement opens the source first, then the destination for writing,
  which fails when the directory of the destination is missing; then the content is
  copied.
\<close>

definition decompress_gz :: "env \<Rightarrow> world \<Rightarrow> string \<Rightarrow> string \<Rightarrow> (exn + unit) \<times> world" where
  "decompress_gz e w src_path dest_path =
     (case files w src_path of
        None \<Rightarrow> (Inl FileNotFoundError, w)
      | Some data \<Rightarrow>
          if dirname dest_path \<notin> dirs w then (Inl FileNotFoundError, w)
          else
            (case gunzip e data of
               Gunzip_fails flt partial \<Rightarrow>
                 (Inl (Fault flt), w\<lparr>files := (files w)(dest_path \<mapsto> partial)\<rparr>)
             | Gunzip_ok out \<Rightarrow> (Inr (), w\<lparr>files := (files w)(dest_path \<mapsto> out)\<rparr>)))"

section \<open>Reading the index file\<close>

text \<open>
  Iterating over the decoded text of a file opened in text mode: a line ends at a line
  feed, at a carriage return, or at the two in a row, and is delivered with a line feed
  at its end; the last line may have none.
\<close>

fun iter_lines :: "string \<Rightarrow> string \<Rightarrow> string list" where
  "iter_lines cur [] = (if cur = [] then [] else [cur])"
| "iter_lines cur [c] =
     (if c = CHR 0x0A \<or> c = CHR 0x0D then [cur @ [CHR 0x0A]] else [cur @ [c]])"
| "iter_lines cur (c # d # cs) =
     (if c = CHR 0x0A then (cur @ [CHR 0x0A]) # iter_lines [] (d # cs)
      else if c = CHR 0x0D then
        (if d = CHR 0x0A then (cur @ [CHR 0x0A]) # iter_lines [] cs
         else (cur @ [CHR 0x0A]) # iter_lines [] (d # cs))
      else iter_lines (cur @ [c]) (d # cs))"

definition parse_idx :: "env \<Rightarrow> world \<Rightarrow> string \<Rightarrow> exn + filing list" where
  "parse_idx e w path =
     (case files w path of
        None \<Rightarrow> Inl FileNotFoundError
      | Some content \<Rightarrow> parse_lines [] (iter_lines [] (decode e content)))"

section \<open>Deduplicating store writer\<close>

text \<open>The truth value of \<^verbatim>\<open>text\<close>, which is \<^verbatim>\<open>None\<close> or a string.\<close>

fun truthy :: "string option \<Rightarrow> bool" where
  "truthy None = False"
| "truthy (Some s) = (s \<noteq> [])"

text \<open>
  \<^verbatim>\<open>insert_unique\<close> changes the dictionary it is given, so the model returns the
  dictionary as the call leaves it, next to the result and the world. A document that
  \<^verbatim>\<open>find_one\<close> returns is never empty, so it counts as true.
\<close>

definition insert_unique :: "env \<Rightarrow> world \<Rightarrow> filing \<Rightarrow> (exn + bool) \<times> filing \<times> world" where
  "insert_unique e w filing =
     (case find_one e w (accession filing) of
        (Inl ex, w1) \<Rightarrow> (Inl ex, filing, w1)
      | (Inr (Some found), w1) \<Rightarrow> (Inr False, filing, w1)
      | (Inr None, w1) \<Rightarrow>
          (case datetime_utcnow e w1 of
             (now, w2) \<Rightarrow>
               (let filing1 = filing\<lparr>ingested_at := Some now\<rparr> in
                case fetch_filing_text e w2 (file_url filing1) of
                  (Inl ex, w3) \<Rightarrow> (Inl ex, filing1, w3)
                | (Inr text, w3) \<Rightarrow>
                    if truthy text then
                      (let filing2 = filing1\<lparr>raw_text := text\<rparr> in
                       case insert_one e w3 filing2 of
                         (Inl ex, w4) \<Rightarrow> (Inl ex, filing2, w4)
                       | (Inr u, w4) \<Rightarrow> (Inr True, filing2, w4))
                    else (Inr False, filing1, w3))))"

section \<open>Pipeline driver\<close>

text \<open>The loop of \<^verbatim>\<open>main\<close> over the parsed filings, counting the insertions.\<close>

fun insert_all :: "env \<Rightarrow> world \<Rightarrow> nat \<Rightarrow> filing list \<Rightarrow> (exn + nat) \<times> world" where
  "insert_all e w new_count [] = (Inr new_count, w)"
| "insert_all e w new_count (filing # rest) =
     (case insert_unique e w filing of
        (Inl ex, filing', w') \<Rightarrow> (Inl ex, w')
      | (Inr inserted, filing', w') \<Rightarrow>
          insert_all e w' (if inserted then new_count + 1 else new_count) rest)"

text \<open>
  \<^verbatim>\<open>tempfile.TemporaryDirectory()\<close> makes a new directory; leaving the \<^verbatim>\<open>with\<close>
  block removes it and what is in it.
\<close>

definition make_tmpdir :: "string \<Rightarrow> world \<Rightarrow> world" where
  "make_tmpdir dir w = w\<lparr>dirs := insert dir (dirs w)\<rparr>"

definition cleanup :: "string \<Rightarrow> world \<Rightarrow> world" where
  "cleanup dir w =
     w\<lparr>files := (\<lambda>p. if take (length dir + 1) p = dir @ ''/'' then None else files w p),
       dirs := dirs w - {dir}\<rparr>"

text \<open>
  The body of the \<^verbatim>\<open>try\<close> block of \<^verbatim>\<open>main\<close>. The name of the temporary
  directory does not end in a slash, so \<^verbatim>\<open>os.path.join\<close> puts one before the file
  name. The archive is written into the temporary directory, which is there; the path
  of the index is the path of the archive with every \<^verbatim>\<open>.gz\<close> deleted, in the name of
  the directory too, so its directory may be missing.
\<close>

definition main_body :: "env \<Rightarrow> world \<Rightarrow> (exn + nat) \<times> world" where
  "main_body e w =
     (case get_today_idx_url (today e) of
        (url, filename) \<Rightarrow>
          (let gz_path = tmpdir e @ ''/'' @ filename;
               idx_path = py_replace ''.gz'' '''' gz_path;
               (r, w') =
                 (case download_gz e (make_tmpdir (tmpdir e) w) url gz_path of
                    (Inl ex, w1) \<Rightarrow> (Inl ex, w1)
                  | (Inr u, w1) \<Rightarrow>
                      (case decompress_gz e w1 gz_path idx_path of
                         (Inl ex, w2) \<Rightarrow> (Inl ex, w2)
                       | (Inr u', w2) \<Rightarrow>
                           (case parse_idx e w2 idx_path of
                              Inl ex \<Rightarrow> (Inl ex, w2)
                            | Inr filings \<Rightarrow> insert_all e w2 0 filings)))
           in (r, cleanup (tmpdir e) w')))"

text \<open>
  What \<^verbatim>\<open>main\<close> reports in its last log line: the number of new filings, or the
  fatal error its handler caught.
\<close>

datatype outcome = Inserted nat | Fatal exn

definition main :: "env \<Rightarrow> world \<Rightarrow> (exn + outcome) \<times> world" where
  "main e w =
     (case main_body e w of
        (Inr new_count, w') \<Rightarrow> (Inr (Inserted new_count), w')
      | (Inl ex, w') \<Rightarrow>
          if is_Exception ex then (Inr (Fatal ex), w') else (Inl ex, w'))"

section \<open>Example environments\<close>

text \<open>
  Concrete answers of the outside, for the examples below: the clock and the store
  always answer, the first request (the index archive) is answered by \<open>first\<close>, every
  later one (a filing text) by \<open>later\<close>; the files hold plain ASCII, which decodes to
  itself.
\<close>

definition example_env :: "http_result \<Rightarrow> http_result \<Rightarrow> gunzip_result \<Rightarrow> env" where
  "example_env first later unzipped =
     \<lparr>today = \<lparr>year = 2024, month = 1, day = 5\<rparr>,
      tmpdir = ''/tmp/tmpk3x9'',
      http = (\<lambda>n url. if n = 0 then first else later),
      utcnow = (\<lambda>n. 100 + n),
      gunzip = (\<lambda>data. unzipped),
      decode = (\<lambda>bytes. bytes),
      mongo = (\<lambda>n. None)\<rparr>"

definition store_down_env :: "http_result \<Rightarrow> gunzip_result \<Rightarrow> env" where
  "store_down_env first unzipped =
     (example_env first (Response 200 ''text'') unzipped)
       \<lparr>mongo := (\<lambda>n. Some (Library_error ''ServerSelectionTimeoutError''))\<rparr>"

definition empty_world :: world where
  "empty_world = \<lparr>collection = [], files = (\<lambda>p. None), dirs = {}, trace = []\<rparr>"

definition acme :: filing where
  "acme = \<lparr>cik = ''0001'', company = ''Acme Co'', form_type = ''10-K'',
            date_filed = ''2024-01-05'', accession = ''acme-10k'',
            file_url = ''https://www.sec.gov/Archives/edgar/data/1/acme-10k.txt'',
            ingested_at = None, raw_text = None\<rparr>"

text \<open>
  A world with one index file, and an index with two filings whose file names end in
  \<^verbatim>\<open>a.txt.bak.txt\<close> and \<^verbatim>\<open>a.bak.txt\<close>.
\<close>

definition index_world :: "string \<Rightarrow> world" where
  "index_world content =
     empty_world\<lparr>files := (\<lambda>p. if p = ''master.idx'' then Some content else None)\<rparr>"

definition inner_suffix_index :: string where
  "inner_suffix_index =
     ''1|A|4|d|p/a.txt.bak.txt'' @ [CHR 0x0A] @ ''2|B|4|d|p/a.bak.txt'' @ [CHR 0x0A]"

definition acme_index :: string where
  "acme_index =
     ''0001|Acme Co|10-K|2024-01-05|edgar/data/1/acme-10k.txt'' @ [CHR 0x0A] @
     ''0002|Beta Inc|8-K|2024-01-05|edgar/data/2/beta-8k.txt'' @ [CHR 0x0A]"

section \<open>What the store holds\<close>

text \<open>
  Whether a document with an accession is in the collection, and how many there are.
  The collection only grows, at its end, so the number of insertions of an accession
  between two worlds is the difference of the numbers of its copies.
\<close>

definition stored :: "world \<Rightarrow> string \<Rightarrow> bool" where
  "stored w a = (a \<in> set (map accession (collection w)))"

definition copies :: "string \<Rightarrow> world \<Rightarrow> nat" where
  "copies a w = length (filter (\<lambda>d. accession d = a) (collection w))"

text \<open>
  Between two worlds an accession was inserted at most once, and not at all when it was
  stored already.
\<close>

definition once :: "string \<Rightarrow> world \<Rightarrow> world \<Rightarrow> bool" where
  "once a w w' = (copies a w' = copies a w \<or> (copies a w = 0 \<and> copies a w' = 1))"


text \<open>
  When the accession is absent, \<open>insert_unique\<close> looks it up, reads the clock and then
  requests the text: \<open>before_fetch\<close> is the world in which the request is made, and
  \<open>stamped\<close> the record with the time that was read.
\<close>

definition before_fetch :: "world \<Rightarrow> filing \<Rightarrow> world" where
  "before_fetch w f = record_event Ev_utcnow (record_event (Ev_find (accession f)) w)"

definition stamped :: "env \<Rightarrow> world \<Rightarrow> filing \<Rightarrow> filing" where
  "stamped e w f = f\<lparr>ingested_at := Some (utcnow e (Suc (length (trace w))))\<rparr>"


text \<open>
  An environment in which no interrupt arrives: whatever fails in it fails with an
  instance of \<^verbatim>\<open>Exception\<close>.
\<close>

definition interrupt_free :: "env \<Rightarrow> bool" where
  "interrupt_free e =
     ((\<forall>n u. http e n u \<noteq> Raises KeyboardInterrupt) \<and>
      (\<forall>d p. gunzip e d \<noteq> Gunzip_fails KeyboardInterrupt p) \<and>
      (\<forall>n. mongo e n \<noteq> Some KeyboardInterrupt))"




section \<open>Properties of the string primitives\<close>

lemma pipe_not_space: "\<not> is_space CHR ''|''"
  by (simp add: is_space_def)

lemma dropWhile_append_stop:
  "\<not> P y \<Longrightarrow> dropWhile P (xs @ y # ys) = dropWhile P xs @ y # ys"
  by (induction xs) auto

lemma py_lstrip_append_stop:
  "\<not> is_space y \<Longrightarrow> py_lstrip (xs @ y # ys) = py_lstrip xs @ y # ys"
  by (simp add: py_lstrip_def dropWhile_append_stop)

lemma py_rstrip_append_stop:
  "\<not> is_space y \<Longrightarrow> py_rstrip (xs @ y # ys) = xs @ y # py_rstrip ys"
proof -
  assume h: "\<not> is_space y"
  have "dropWhile is_space (rev ys @ y # rev xs) = dropWhile is_space (rev ys) @ y # rev xs"
    using h by (rule dropWhile_append_stop)
  then show ?thesis by (simp add: py_rstrip_def)
qed

lemma py_lstrip_idem: "py_lstrip (py_lstrip s) = py_lstrip s"
  by (simp add: py_lstrip_def)

lemma py_rstrip_idem: "py_rstrip (py_rstrip s) = py_rstrip s"
  by (simp add: py_rstrip_def)

lemma py_rstrip_all_space: "\<forall>x\<in>set s. is_space x \<Longrightarrow> py_rstrip s = []"
  by (simp add: py_rstrip_def)

lemma py_strip_commute: "py_lstrip (py_rstrip s) = py_rstrip (py_lstrip s)"
proof (cases "\<forall>x\<in>set s. is_space x")
  case True
  then have a: "dropWhile is_space s = []" and b: "dropWhile is_space (rev s) = []"
    by simp_all
  show ?thesis unfolding py_rstrip_def py_lstrip_def a b by simp
next
  case False
  then have ne: "dropWhile is_space s \<noteq> []" by simp
  then obtain y ys where d: "dropWhile is_space s = y # ys" by (cases "dropWhile is_space s") auto
  have ny: "\<not> is_space y" using d by (metis hd_dropWhile list.sel(1) ne)
  have s: "s = takeWhile is_space s @ y # ys" using d by (metis takeWhile_dropWhile_id)
  have l: "py_lstrip s = y # ys" by (simp add: py_lstrip_def d)
  have "py_rstrip s = takeWhile is_space s @ y # py_rstrip ys"
    using py_rstrip_append_stop [OF ny, of "takeWhile is_space s" ys] s by simp
  then have "py_lstrip (py_rstrip s) = py_lstrip (takeWhile is_space s) @ y # py_rstrip ys"
    using py_lstrip_append_stop [OF ny] by simp
  also have "py_lstrip (takeWhile is_space s) = []"
    by (auto simp: py_lstrip_def dest: set_takeWhileD)
  finally have a: "py_lstrip (py_rstrip s) = y # py_rstrip ys" by simp
  have "py_rstrip (py_lstrip s) = y # py_rstrip ys"
    using py_rstrip_append_stop [OF ny, of "[]" ys] l by simp
  with a show ?thesis by simp
qed

lemma py_strip_lstrip: "py_strip (py_lstrip s) = py_strip s"
  by (simp add: py_strip_def py_lstrip_idem)

lemma py_strip_rstrip: "py_strip (py_rstrip s) = py_strip s"
  by (simp add: py_strip_def py_strip_commute py_rstrip_idem)

lemma py_split_no_sep: "c \<notin> set xs \<Longrightarrow> py_split c xs = [xs]"
  by (induction xs) auto

lemma py_split_append_sep: "c \<notin> set xs \<Longrightarrow> py_split c (xs @ c # ys) = xs # py_split c ys"
  by (induction xs) auto

lemma py_split_nonempty: "py_split c s \<noteq> []"
  by (induction s) (auto split: list.splits)

lemma length_py_split: "length (py_split c s) = Suc (length (filter (\<lambda>x. x = c) s))"
  by (induction s) (auto split: list.splits simp: py_split_nonempty)

lemma filter_dropWhile_disjoint:
  "(\<And>x. Q x \<Longrightarrow> \<not> P x) \<Longrightarrow> filter Q (dropWhile P s) = filter Q s"
  by (induction s) auto

lemma py_split_two: "c \<in> set xs \<Longrightarrow> \<exists>p q qs. py_split c xs = p # q # qs"
proof -
  assume "c \<in> set xs"
  then have "filter (\<lambda>x. x = c) xs \<noteq> []" by (simp add: filter_empty_conv)
  then have "2 \<le> length (py_split c xs)"
    by (cases "filter (\<lambda>x. x = c) xs") (simp_all add: length_py_split)
  then show ?thesis
    by (cases "py_split c xs"; cases "tl (py_split c xs)") auto
qed

lemma last_py_split_sep:
  "c \<notin> set seg \<Longrightarrow> last (py_split c (d @ c # seg)) = seg"
proof (induction d)
  case Nil
  then show ?case by (simp add: py_split_no_sep)
next
  case (Cons x d)
  obtain p q qs where e: "py_split c (d @ c # seg) = p # q # qs"
    using py_split_two [of c "d @ c # seg"] by auto
  with Cons show ?case by auto
qed

lemma set_py_lstrip: "set (py_lstrip s) \<subseteq> set s"
  by (auto simp: py_lstrip_def dest: set_dropWhileD)

lemma set_py_rstrip: "set (py_rstrip s) \<subseteq> set s"
  by (auto simp: py_rstrip_def dest: set_dropWhileD)

lemma py_strip_five:
  "py_strip (f1 @ CHR ''|'' # f2 @ CHR ''|'' # f3 @ CHR ''|'' # f4 @ CHR ''|'' # f5) =
     py_lstrip f1 @ CHR ''|'' # f2 @ CHR ''|'' # f3 @ CHR ''|'' # f4 @ CHR ''|'' # py_rstrip f5"
proof -
  let ?r = "f2 @ CHR ''|'' # f3 @ CHR ''|'' # f4 @ CHR ''|'' # f5"
  let ?h = "py_lstrip f1 @ CHR ''|'' # f2 @ CHR ''|'' # f3 @ CHR ''|'' # f4"
  have "py_lstrip (f1 @ CHR ''|'' # ?r) = py_lstrip f1 @ CHR ''|'' # ?r"
    by (rule py_lstrip_append_stop [OF pipe_not_space])
  moreover have "py_rstrip (?h @ CHR ''|'' # f5) = ?h @ CHR ''|'' # py_rstrip f5"
    by (rule py_rstrip_append_stop [OF pipe_not_space])
  ultimately show ?thesis by (simp add: py_strip_def)
qed

lemma parts_five:
  assumes "CHR ''|'' \<notin> set f1" "CHR ''|'' \<notin> set f2" "CHR ''|'' \<notin> set f3"
    "CHR ''|'' \<notin> set f4" "CHR ''|'' \<notin> set f5"
  shows "map py_strip (py_split CHR ''|''
           (py_strip (f1 @ CHR ''|'' # f2 @ CHR ''|'' # f3 @ CHR ''|'' # f4 @ CHR ''|'' # f5)))
         = [py_strip f1, py_strip f2, py_strip f3, py_strip f4, py_strip f5]"
proof -
  have a: "CHR ''|'' \<notin> set (py_lstrip f1)" using assms(1) set_py_lstrip by blast
  have b: "CHR ''|'' \<notin> set (py_rstrip f5)" using assms(5) set_py_rstrip by blast
  show ?thesis
    using a b assms(2-4)
    by (simp add: py_strip_five py_split_append_sep py_split_no_sep
        py_strip_lstrip py_strip_rstrip)
qed

lemma parse_line_five:
  assumes "CHR ''|'' \<notin> set f1" "CHR ''|'' \<notin> set f2" "CHR ''|'' \<notin> set f3"
    "CHR ''|'' \<notin> set f4" "CHR ''|'' \<notin> set f5"
  shows "parse_line (f1 @ CHR ''|'' # f2 @ CHR ''|'' # f3 @ CHR ''|'' # f4 @ CHR ''|'' # f5) =
    (if py_strip f3 \<in> TARGET_FORMS then
       Inr [\<lparr>cik = py_strip f1, company = py_strip f2, form_type = py_strip f3,
             date_filed = py_strip f4,
             accession = py_replace ''.txt'' '''' (last (py_split CHR ''/'' (py_strip f5))),
             file_url = ''https://www.sec.gov/Archives/'' @ py_strip f5,
             ingested_at = None, raw_text = None\<rparr>]
     else Inr [])"
  unfolding parse_line_def parts_five [OF assms]
  by (simp add: last_elem_def py_split_nonempty)

lemma parse_line_no_pipe: "CHR ''|'' \<notin> set line \<Longrightarrow> parse_line line = Inr []"
  by (simp add: parse_line_def)

lemma count_pipes_strip:
  "filter (\<lambda>x. x = CHR ''|'') (py_strip s) = filter (\<lambda>x. x = CHR ''|'') s"
proof -
  have q: "\<And>x. x = CHR ''|'' \<Longrightarrow> \<not> is_space x" by (simp add: is_space_def)
  have l: "\<And>t. filter (\<lambda>x. x = CHR ''|'') (py_lstrip t) = filter (\<lambda>x. x = CHR ''|'') t"
    unfolding py_lstrip_def by (rule filter_dropWhile_disjoint) (rule q)
  have "\<And>t. filter (\<lambda>x. x = CHR ''|'') (dropWhile is_space (rev t)) = filter (\<lambda>x. x = CHR ''|'') (rev t)"
    by (rule filter_dropWhile_disjoint) (rule q)
  then have r: "\<And>t. filter (\<lambda>x. x = CHR ''|'') (py_rstrip t) = filter (\<lambda>x. x = CHR ''|'') t"
    unfolding py_rstrip_def by (simp add: rev_filter [symmetric])
  show ?thesis by (simp add: py_strip_def l r)
qed

lemma parse_line_not_five:
  "length (filter (\<lambda>x. x = CHR ''|'') line) \<noteq> 4 \<Longrightarrow> parse_line line = Inr []"
  by (simp add: parse_line_def length_py_split count_pipes_strip)


section \<open>The index parser\<close>

lemma split_last_segment: "last (py_split CHR ''/'' s) = spec_last_segment s"
proof (cases "CHR ''/'' \<in> set s")
  case True
  then obtain d seg where s: "s = d @ CHR ''/'' # seg" and n: "CHR ''/'' \<notin> set seg"
    using split_list_last [of "CHR ''/''" s] by auto
  have "takeWhile (\<lambda>x. x \<noteq> CHR ''/'') (rev seg @ CHR ''/'' # rev d) = rev seg"
    using n by (subst takeWhile_append2) auto
  then show ?thesis
    using n by (simp add: s spec_last_segment_def last_py_split_sep)
next
  case False
  then have t: "takeWhile (\<lambda>x. x \<noteq> CHR ''/'') (rev s) = rev s" by auto
  show ?thesis unfolding spec_last_segment_def t using False by (simp add: py_split_no_sep)
qed

text \<open>
  What the parser does with an accepted line. A line of five fields separated by pipes,
  whose trimmed third field is an accepted form type, yields exactly one record: its
  fields are the trimmed fields, its \<open>file_url\<close> is the archive root followed by the
  trimmed file name, and its \<open>accession\<close> is the last path segment of the trimmed file
  name with every occurrence of \<^verbatim>\<open>.txt\<close> deleted. The parser raises nothing and the
  loop continues with that one record appended.
\<close>

theorem parse_idx_accepts:
  assumes "CHR ''|'' \<notin> set f1" "CHR ''|'' \<notin> set f2" "CHR ''|'' \<notin> set f3"
    "CHR ''|'' \<notin> set f4" "CHR ''|'' \<notin> set f5"
    and "py_strip f3 \<in> TARGET_FORMS"
    and "line = f1 @ CHR ''|'' # f2 @ CHR ''|'' # f3 @ CHR ''|'' # f4 @ CHR ''|'' # f5"
    and "r = \<lparr>cik = py_strip f1, company = py_strip f2, form_type = py_strip f3,
              date_filed = py_strip f4,
              accession = py_replace ''.txt'' '''' (spec_last_segment (py_strip f5)),
              file_url = ''https://www.sec.gov/Archives/'' @ py_strip f5,
              ingested_at = None, raw_text = None\<rparr>"
  shows "parse_line line = Inr [r] \<and>
         parse_lines filings (line # rest) = parse_lines (filings @ [r]) rest"
proof -
  have "parse_line line = Inr [r]"
    using assms(6) unfolding assms(7,8) parse_line_five [OF assms(1-5)]
    by (simp add: split_last_segment)
  then show ?thesis by simp
qed

theorem parse_idx_accepts_witness:
  "parse_line ''0001|Acme Co|10-K|2024-01-05|edgar/data/1/acme-10k.txt'' =
     Inr [\<lparr>cik = ''0001'', company = ''Acme Co'', form_type = ''10-K'',
           date_filed = ''2024-01-05'', accession = ''acme-10k'',
           file_url = ''https://www.sec.gov/Archives/edgar/data/1/acme-10k.txt'',
           ingested_at = None, raw_text = None\<rparr>]"
proof -
  have t: "py_strip ''10-K'' \<in> TARGET_FORMS"
    by (simp add: TARGET_FORMS_def py_strip_def py_lstrip_def py_rstrip_def is_space_def)
  show ?thesis
    using parse_idx_accepts [of "''0001''" "''Acme Co''" "''10-K''" "''2024-01-05''"
        "''edgar/data/1/acme-10k.txt''", OF _ _ _ _ _ t refl refl]
    by (simp add: py_strip_def py_lstrip_def py_rstrip_def is_space_def spec_last_segment_def)
qed

text \<open>
  Claim C3: the accession of an accepted line is the last path segment of its file name
  minus the trailing suffix \<^verbatim>\<open>.txt\<close>. The parser means to take the suffix off and does
  it with \<^verbatim>\<open>replace\<close>, which deletes every occurrence. For an index file with the two
  lines below it emits two records, as the claim says, but the first gets the accession
  \<^verbatim>\<open>a.bak\<close> where its segment minus the suffix is \<^verbatim>\<open>a.txt.bak\<close>, and so the two
  filings share one accession.
\<close>

theorem parse_idx_inner_suffix:
  "parse_idx (example_env (Response 200 ''gz'') (Response 200 ''body'') (Gunzip_ok inner_suffix_index))
     (index_world inner_suffix_index) ''master.idx'' =
     Inr [\<lparr>cik = ''1'', company = ''A'', form_type = ''4'', date_filed = ''d'',
           accession = ''a.bak'',
           file_url = ''https://www.sec.gov/Archives/p/a.txt.bak.txt'',
           ingested_at = None, raw_text = None\<rparr>,
          \<lparr>cik = ''2'', company = ''B'', form_type = ''4'', date_filed = ''d'',
           accession = ''a.bak'',
           file_url = ''https://www.sec.gov/Archives/p/a.bak.txt'',
           ingested_at = None, raw_text = None\<rparr>] \<and>
   spec_accession ''p/a.txt.bak.txt'' = ''a.txt.bak'' \<and>
   spec_accession ''p/a.bak.txt'' = ''a.bak''"
  by code_simp

text \<open>
  Claim C4. A line without a pipe, a line that does not split into exactly five fields,
  and a line of five fields whose trimmed form type is not accepted each yield no record
  and no exception: the loop goes on with the list of filings as it was.
\<close>

theorem parse_idx_rejects:
  assumes "CHR ''|'' \<notin> set line \<or>
           length (py_split CHR ''|'' line) \<noteq> 5 \<or>
           (line = f1 @ CHR ''|'' # f2 @ CHR ''|'' # f3 @ CHR ''|'' # f4 @ CHR ''|'' # f5 \<and>
            CHR ''|'' \<notin> set f1 \<and> CHR ''|'' \<notin> set f2 \<and> CHR ''|'' \<notin> set f3 \<and>
            CHR ''|'' \<notin> set f4 \<and> CHR ''|'' \<notin> set f5 \<and> py_strip f3 \<notin> TARGET_FORMS)"
  shows "parse_line line = Inr [] \<and>
         parse_lines filings (line # rest) = parse_lines filings rest"
proof -
  have "parse_line line = Inr []"
    using assms
  proof (elim disjE conjE)
    assume "CHR ''|'' \<notin> set line"
    then show ?thesis by (rule parse_line_no_pipe)
  next
    assume "length (py_split CHR ''|'' line) \<noteq> 5"
    then have "length (filter (\<lambda>x. x = CHR ''|'') line) \<noteq> 4"
      by (simp add: length_py_split)
    then show ?thesis by (rule parse_line_not_five)
  next
    assume l: "line = f1 @ CHR ''|'' # f2 @ CHR ''|'' # f3 @ CHR ''|'' # f4 @ CHR ''|'' # f5"
      and p: "CHR ''|'' \<notin> set f1" "CHR ''|'' \<notin> set f2" "CHR ''|'' \<notin> set f3"
        "CHR ''|'' \<notin> set f4" "CHR ''|'' \<notin> set f5"
      and t: "py_strip f3 \<notin> TARGET_FORMS"
    show ?thesis unfolding l parse_line_five [OF p] using t by simp
  qed
  then show ?thesis by simp
qed

theorem parse_idx_rejects_witness:
  "parse_line ''Description: Master Index of EDGAR'' = Inr [] \<and>
   parse_line ''0002|Beta Inc|8-K'' = Inr [] \<and>
   parse_line ''0002|Beta Inc|8-K|2024-01-05|edgar/data/2/beta-8k.txt'' = Inr []"
proof -
  have a: "CHR ''|'' \<notin> set ''Description: Master Index of EDGAR''" by simp
  have b: "length (py_split CHR ''|'' ''0002|Beta Inc|8-K'') \<noteq> 5" by simp
  have c: "py_strip ''8-K'' \<notin> TARGET_FORMS"
    by (simp add: TARGET_FORMS_def py_strip_def py_lstrip_def py_rstrip_def is_space_def)
  have "parse_line ''Description: Master Index of EDGAR'' = Inr []"
    using parse_idx_rejects [of "''Description: Master Index of EDGAR''"] a by blast
  moreover have "parse_line ''0002|Beta Inc|8-K'' = Inr []"
    using parse_idx_rejects [of "''0002|Beta Inc|8-K''"] b by blast
  moreover have "parse_line ''0002|Beta Inc|8-K|2024-01-05|edgar/data/2/beta-8k.txt'' = Inr []"
    using parse_idx_rejects [of "''0002|Beta Inc|8-K|2024-01-05|edgar/data/2/beta-8k.txt''"
        "''0002''" "''Beta Inc''" "''8-K''" "''2024-01-05''" "''edgar/data/2/beta-8k.txt''"] c
    by simp
  ultimately show ?thesis by simp
qed

section \<open>The store writer inserts an accession at most once\<close>

lemma record_event_simps [simp]:
  "trace (record_event ev w) = trace w @ [ev]"
  "collection (record_event ev w) = collection w"
  "files (record_event ev w) = files w"
  "dirs (record_event ev w) = dirs w"
  by (simp_all add: record_event_def)

lemma make_tmpdir_simps [simp]:
  "trace (make_tmpdir d w) = trace w"
  "collection (make_tmpdir d w) = collection w"
  "files (make_tmpdir d w) = files w"
  by (simp_all add: make_tmpdir_def)

lemma find_stored: "(find (\<lambda>d. accession d = a) (collection w) = None) = (\<not> stored w a)"
  by (auto simp: stored_def find_None_iff)

lemma find_one_collection: "find_one e w a = (r, w') \<Longrightarrow> collection w' = collection w"
  by (auto simp: find_one_def split: option.splits)

lemma find_one_result:
  "find_one e w a = (Inr r, w') \<Longrightarrow> (r = None) = (\<not> stored w a)"
  by (auto simp: find_one_def find_stored split: option.splits)

lemma fetch_collection: "fetch_filing_text e w u = (r, w') \<Longrightarrow> collection w' = collection w"
  by (auto simp: fetch_filing_text_def split: http_result.splits if_splits)

lemma insert_one_collection:
  "insert_one e w d = (r, w') \<Longrightarrow>
     (r = Inr () \<and> collection w' = collection w @ [d]) \<or>
     ((\<exists>flt. r = Inl (Fault flt)) \<and> collection w' = collection w)"
  by (auto simp: insert_one_def split: option.splits)

lemma insert_unique_collection:
  assumes "insert_unique e w f = (r, f', w')"
  shows "collection w' = collection w \<or>
         (\<not> stored w (accession f) \<and> r = Inr True \<and> accession f' = accession f \<and>
          collection w' = collection w @ [f'])"
proof (cases "find_one e w (accession f)")
  case (Pair r1 w1)
  note c1 = find_one_collection [OF Pair]
  show ?thesis
  proof (cases r1)
    case (Inl ex)
    with assms Pair c1 show ?thesis by (simp add: insert_unique_def)
  next
    case (Inr found)
    show ?thesis
    proof (cases found)
      case (Some d)
      with assms Pair Inr c1 show ?thesis by (simp add: insert_unique_def)
    next
      case None
      have ns: "\<not> stored w (accession f)"
        using find_one_result [of e w "accession f" found w1] Pair Inr None by simp
      let ?w2 = "record_event Ev_utcnow w1"
      let ?f1 = "f\<lparr>ingested_at := Some (utcnow e (length (trace w1)))\<rparr>"
      obtain r3 w3 where f3: "fetch_filing_text e ?w2 (file_url ?f1) = (r3, w3)"
        by (cases "fetch_filing_text e ?w2 (file_url ?f1)")
      have c3: "collection w3 = collection w" using fetch_collection [OF f3] c1 by simp
      show ?thesis
      proof (cases r3)
        case (Inl ex)
        with assms Pair Inr None f3 c3 show ?thesis
          by (simp add: insert_unique_def datetime_utcnow_def)
      next
        case (Inr tx)
        show ?thesis
        proof (cases "truthy tx")
          case False
          with assms Pair \<open>r1 = Inr found\<close> None f3 c3 Inr show ?thesis
            by (simp add: insert_unique_def datetime_utcnow_def)
        next
          case True
          let ?f2 = "?f1\<lparr>raw_text := tx\<rparr>"
          obtain r4 w4 where i4: "insert_one e w3 ?f2 = (r4, w4)"
            by (cases "insert_one e w3 ?f2")
          from insert_one_collection [OF i4] assms Pair \<open>r1 = Inr found\<close> None f3 c3 Inr True i4 ns
          show ?thesis
            by (auto simp: insert_unique_def datetime_utcnow_def)
        qed
      qed
    qed
  qed
qed

lemma once_refl: "once a w w" by (simp add: once_def)

lemma once_trans: "once a w w' \<Longrightarrow> once a w' w'' \<Longrightarrow> once a w w''"
  by (auto simp: once_def)

lemma once_same: "collection w' = collection w \<Longrightarrow> once a w w'"
  by (simp add: once_def copies_def)

lemma not_stored_copies: "\<not> stored w a \<Longrightarrow> copies a w = 0"
  by (auto simp: stored_def copies_def filter_empty_conv)

lemma insert_unique_once: "insert_unique e w f = (r, f', w') \<Longrightarrow> once a w w'"
proof -
  assume h: "insert_unique e w f = (r, f', w')"
  from insert_unique_collection [OF h] show ?thesis
  proof
    assume "collection w' = collection w"
    then show ?thesis by (rule once_same)
  next
    assume c: "\<not> stored w (accession f) \<and> r = Inr True \<and> accession f' = accession f \<and>
          collection w' = collection w @ [f']"
    then have z: "copies (accession f) w = 0" by (simp add: not_stored_copies)
    show ?thesis
    proof (cases "a = accession f")
      case True
      with c z show ?thesis by (simp add: once_def copies_def)
    next
      case False
      with c show ?thesis by (simp add: once_def copies_def)
    qed
  qed
qed

lemma insert_all_once: "insert_all e w n fs = (r, w') \<Longrightarrow> once a w w'"
proof (induction fs arbitrary: w n)
  case Nil
  then show ?case by (simp add: once_refl)
next
  case (Cons f fs)
  obtain r1 f1 w1 where u: "insert_unique e w f = (r1, f1, w1)"
    by (cases "insert_unique e w f") auto
  have o1: "once a w w1" using u by (rule insert_unique_once)
  show ?case
  proof (cases r1)
    case (Inl ex)
    with Cons.prems u o1 show ?thesis by simp
  next
    case (Inr b)
    with Cons.prems u have "insert_all e w1 (if b then n + 1 else n) fs = (r, w')" by simp
    then have "once a w1 w'" by (rule Cons.IH)
    with o1 show ?thesis by (rule once_trans)
  qed
qed

lemma download_collection: "download_gz e w u p = (r, w') \<Longrightarrow> collection w' = collection w"
  by (auto simp: download_gz_def split: http_result.splits if_splits)

lemma decompress_collection: "decompress_gz e w s d = (r, w') \<Longrightarrow> collection w' = collection w"
  by (auto simp: decompress_gz_def split: option.splits gunzip_result.splits if_splits)

lemma cleanup_collection [simp]: "collection (cleanup d w) = collection w"
  by (simp add: cleanup_def)

lemma cleanup_trace [simp]: "trace (cleanup d w) = trace w"
  by (simp add: cleanup_def)

lemma main_body_once: "main_body e w = (r, w') \<Longrightarrow> once a w w'"
proof -
  assume h: "main_body e w = (r, w')"
  obtain url filename where g: "get_today_idx_url (today e) = (url, filename)"
    by (cases "get_today_idx_url (today e)")
  let ?gz = "tmpdir e @ ''/'' @ filename"
  let ?idx = "py_replace ''.gz'' '''' ?gz"
  obtain r1 w1 where d: "download_gz e (make_tmpdir (tmpdir e) w) url ?gz = (r1, w1)"
    by (cases "download_gz e (make_tmpdir (tmpdir e) w) url ?gz")
  have c1: "collection w1 = collection w" using download_collection [OF d] by simp
  show ?thesis
  proof (cases r1)
    case (Inl ex)
    with h g d have "w' = cleanup (tmpdir e) w1" by (simp add: main_body_def)
    with c1 show ?thesis by (simp add: once_same)
  next
    case (Inr u)
    obtain r2 w2 where z: "decompress_gz e w1 ?gz ?idx = (r2, w2)"
      by (cases "decompress_gz e w1 ?gz ?idx")
    note c2 = decompress_collection [OF z]
    show ?thesis
    proof (cases r2)
      case (Inl ex)
      with h g d z \<open>r1 = Inr u\<close> have "w' = cleanup (tmpdir e) w2" by (simp add: main_body_def)
      with c1 c2 show ?thesis by (simp add: once_same)
    next
      case (Inr u')
      show ?thesis
      proof (cases "parse_idx e w2 ?idx")
        case (Inl ex)
        with h g d z \<open>r1 = Inr u\<close> \<open>r2 = Inr u'\<close> have "w' = cleanup (tmpdir e) w2"
          by (simp add: main_body_def)
        with c1 c2 show ?thesis by (simp add: once_same)
      next
        case (Inr filings)
        obtain r3 w3 where i: "insert_all e w2 0 filings = (r3, w3)"
          by (cases "insert_all e w2 0 filings")
        with h g d z \<open>r1 = Inr u\<close> \<open>r2 = Inr u'\<close> Inr have w': "w' = cleanup (tmpdir e) w3"
          by (simp add: main_body_def)
        have "once a w2 w3" using i by (rule insert_all_once)
        then have "once a w w3" using c1 c2 by (simp add: once_def copies_def)
        then show ?thesis using w' by (simp add: once_def copies_def)
      qed
    qed
  qed
qed

lemma main_once: "main e w = (r, w') \<Longrightarrow> once a w w'"
proof -
  assume h: "main e w = (r, w')"
  obtain r0 w0 where b: "main_body e w = (r0, w0)" by (cases "main_body e w")
  have "w' = w0" using h b by (auto simp: main_def split: sum.splits if_splits)
  with main_body_once [OF b] show ?thesis by simp
qed

lemma find_one_ok:
  "mongo e (length (trace w)) = None \<Longrightarrow>
   find_one e w a =
     (Inr (find (\<lambda>d. accession d = a) (collection w)), record_event (Ev_find a) w)"
  by (simp add: find_one_def)

lemma insert_unique_present:
  assumes "stored w (accession f)" and "mongo e (length (trace w)) = None"
  shows "insert_unique e w f = (Inr False, f, record_event (Ev_find (accession f)) w)"
proof -
  obtain d where "find (\<lambda>d. accession d = accession f) (collection w) = Some d"
    using assms(1) find_stored [of "accession f" w]
    by (cases "find (\<lambda>d. accession d = accession f) (collection w)") auto
  then show ?thesis
    by (simp add: insert_unique_def find_one_ok [OF assms(2)])
qed

lemma insert_unique_present_store:
  assumes "stored w (accession f)"
  shows "collection (snd (snd (insert_unique e w f))) = collection w"
proof -
  obtain r f' w' where u: "insert_unique e w f = (r, f', w')"
    by (cases "insert_unique e w f") auto
  from insert_unique_collection [OF u] assms have "collection w' = collection w" by auto
  with u show ?thesis by simp
qed

text \<open>
  Claim C1. When a document with the record's accession is stored, \<open>insert_unique\<close>
  leaves the collection as it is, and returns false whenever the store answers the
  lookup. Over two runs of the whole pipeline, the second starting in the world the
  first one left, whatever the network, the clock and the store answer in either run,
  every accession is inserted at most once, and not at all when it was stored before.
\<close>

theorem store_writer_at_most_once:
  "(stored w (accession f) \<longrightarrow>
      collection (snd (snd (insert_unique e w f))) = collection w \<and>
      (mongo e (length (trace w)) = None \<longrightarrow> fst (insert_unique e w f) = Inr False)) \<and>
   once a w (snd (main e2 (snd (main e1 w))))"
proof -
  have "once a w (snd (main e1 w))"
    by (rule main_once [of e1 w "fst (main e1 w)"]) simp
  moreover have "once a (snd (main e1 w)) (snd (main e2 (snd (main e1 w))))"
    by (rule main_once [of e2 _ "fst (main e2 (snd (main e1 w)))"]) simp
  ultimately have "once a w (snd (main e2 (snd (main e1 w))))" by (rule once_trans)
  then show ?thesis
    by (simp add: insert_unique_present insert_unique_present_store)
qed

theorem store_writer_at_most_once_witness:
  "stored (empty_world\<lparr>collection := [acme]\<rparr>) (accession acme) \<and>
   collection (snd (snd (insert_unique
       (example_env (Response 200 ''gz'') (Response 200 ''body'') (Gunzip_ok acme_index))
       (empty_world\<lparr>collection := [acme]\<rparr>) acme))) = [acme] \<and>
   fst (insert_unique
       (example_env (Response 200 ''gz'') (Response 200 ''body'') (Gunzip_ok acme_index))
       (empty_world\<lparr>collection := [acme]\<rparr>) acme) = Inr False \<and>
   once ''acme-10k'' (empty_world\<lparr>collection := [acme]\<rparr>)
     (snd (main (example_env (Response 200 ''gz'') (Response 200 ''body'') (Gunzip_ok acme_index))
        (snd (main (example_env (Response 200 ''gz'') (Response 200 ''body'')
                      (Gunzip_ok acme_index))
                (empty_world\<lparr>collection := [acme]\<rparr>)))))"
proof -
  let ?e = "example_env (Response 200 ''gz'') (Response 200 ''body'') (Gunzip_ok acme_index)"
  let ?w = "empty_world\<lparr>collection := [acme]\<rparr>"
  have s: "stored ?w (accession acme)" by (simp add: stored_def empty_world_def)
  have m: "mongo ?e (length (trace ?w)) = None" by (simp add: example_env_def)
  note t = store_writer_at_most_once [of ?w acme ?e "''acme-10k''" ?e ?e]
  have "collection (snd (snd (insert_unique ?e ?w acme))) = collection ?w" using t s by blast
  then have a: "collection (snd (snd (insert_unique ?e ?w acme))) = [acme]"
    by (simp add: empty_world_def)
  have b: "fst (insert_unique ?e ?w acme) = Inr False" using t s m by blast
  have c: "once ''acme-10k'' ?w (snd (main ?e (snd (main ?e ?w))))" using t by blast
  from s a b c show ?thesis by blast
qed

section \<open>The branches of the store writer\<close>

lemma insert_unique_absent:
  assumes "\<not> stored w (accession f)" and "mongo e (length (trace w)) = None"
  shows "insert_unique e w f =
     (case fetch_filing_text e (before_fetch w f) (file_url f) of
        (Inl ex, w3) \<Rightarrow> (Inl ex, stamped e w f, w3)
      | (Inr tx, w3) \<Rightarrow>
          if truthy tx then
            (case insert_one e w3 ((stamped e w f)\<lparr>raw_text := tx\<rparr>) of
               (Inl ex, w4) \<Rightarrow> (Inl ex, (stamped e w f)\<lparr>raw_text := tx\<rparr>, w4)
             | (Inr u, w4) \<Rightarrow> (Inr True, (stamped e w f)\<lparr>raw_text := tx\<rparr>, w4))
          else (Inr False, stamped e w f, w3))"
proof -
  have "find (\<lambda>d. accession d = accession f) (collection w) = None"
    using assms(1) by (simp add: find_stored)
  then show ?thesis
    by (auto simp: insert_unique_def find_one_ok [OF assms(2)] datetime_utcnow_def
        before_fetch_def stamped_def Let_def split: prod.splits sum.splits)
qed

lemma fetch_trace:
  "fetch_filing_text e w u = (r, w') \<Longrightarrow> w' = record_event (Ev_get u) w"
  by (auto simp: fetch_filing_text_def split: http_result.splits if_splits)

lemma insert_one_ok:
  "mongo e (length (trace w)) = None \<Longrightarrow>
   insert_one e w d = (Inr (), (record_event (Ev_insert d) w)\<lparr>collection := collection w @ [d]\<rparr>)"
  by (simp add: insert_one_def)

text \<open>
  Claim C2, as the store writer has it, when the store answers the lookup.
  (a) A stored accession: false at once, the record untouched, and the lookup is the
  only call made, so no text is fetched.
  (b) An absent accession and a fetch that gives no text: false, nothing is persisted.
  The same holds when the fetch succeeds with an empty body, which the writer tests as
  false.
  (c) An absent accession and a fetch that gives a body that is not empty, the store
  taking the insert: true, and the document appended to the collection is the record
  with the time stamp and the body.
\<close>

theorem insert_unique_branches:
  assumes "mongo e (length (trace w)) = None"
  shows "(stored w (accession f) \<longrightarrow>
            insert_unique e w f = (Inr False, f, record_event (Ev_find (accession f)) w)) \<and>
         (\<not> stored w (accession f) \<and>
          fetch_filing_text e (before_fetch w f) (file_url f) = (Inr None, w3) \<longrightarrow>
            insert_unique e w f = (Inr False, stamped e w f, w3) \<and>
            collection w3 = collection w) \<and>
         (\<not> stored w (accession f) \<and>
          fetch_filing_text e (before_fetch w f) (file_url f) = (Inr (Some []), w3) \<longrightarrow>
            insert_unique e w f = (Inr False, stamped e w f, w3) \<and>
            collection w3 = collection w) \<and>
         (\<not> stored w (accession f) \<and>
          fetch_filing_text e (before_fetch w f) (file_url f) = (Inr (Some body), w3) \<and>
          body \<noteq> [] \<and> mongo e (length (trace w3)) = None \<longrightarrow>
            fst (insert_unique e w f) = Inr True \<and>
            fst (snd (insert_unique e w f)) = (stamped e w f)\<lparr>raw_text := Some body\<rparr> \<and>
            collection (snd (snd (insert_unique e w f))) =
              collection w @ [(stamped e w f)\<lparr>raw_text := Some body\<rparr>])"
proof (intro conjI impI)
  assume "stored w (accession f)"
  then show "insert_unique e w f = (Inr False, f, record_event (Ev_find (accession f)) w)"
    using assms by (rule insert_unique_present)
next
  assume h: "\<not> stored w (accession f) \<and>
    fetch_filing_text e (before_fetch w f) (file_url f) = (Inr None, w3)"
  then show "insert_unique e w f = (Inr False, stamped e w f, w3)"
    using assms by (simp add: insert_unique_absent)
  from h show "collection w3 = collection w"
    using fetch_collection [of e "before_fetch w f" "file_url f" "Inr None" w3]
    by (simp add: before_fetch_def)
next
  assume h: "\<not> stored w (accession f) \<and>
    fetch_filing_text e (before_fetch w f) (file_url f) = (Inr (Some []), w3)"
  then show "insert_unique e w f = (Inr False, stamped e w f, w3)"
    using assms by (simp add: insert_unique_absent)
  from h show "collection w3 = collection w"
    using fetch_collection [of e "before_fetch w f" "file_url f" "Inr (Some [])" w3]
    by (simp add: before_fetch_def)
next
  assume h: "\<not> stored w (accession f) \<and>
    fetch_filing_text e (before_fetch w f) (file_url f) = (Inr (Some body), w3) \<and>
    body \<noteq> [] \<and> mongo e (length (trace w3)) = None"
  then have c3: "collection w3 = collection w"
    using fetch_collection [of e "before_fetch w f" "file_url f" "Inr (Some body)" w3]
    by (simp add: before_fetch_def)
  from h have u: "insert_unique e w f =
      (Inr True, (stamped e w f)\<lparr>raw_text := Some body\<rparr>,
       (record_event (Ev_insert ((stamped e w f)\<lparr>raw_text := Some body\<rparr>)) w3)
         \<lparr>collection := collection w3 @ [(stamped e w f)\<lparr>raw_text := Some body\<rparr>]\<rparr>)"
    using assms by (simp add: insert_unique_absent insert_one_ok)
  show "fst (insert_unique e w f) = Inr True" by (simp add: u)
  show "fst (snd (insert_unique e w f)) = (stamped e w f)\<lparr>raw_text := Some body\<rparr>"
    by (simp add: u)
  show "collection (snd (snd (insert_unique e w f))) =
      collection w @ [(stamped e w f)\<lparr>raw_text := Some body\<rparr>]"
    by (simp add: u c3)
qed

lemma fetch_eval:
  "fetch_filing_text e w u =
     (case http e (length (trace w)) u of
        Response st body \<Rightarrow> (if st = 200 then Inr (Some body) else Inr None)
      | Raises flt \<Rightarrow> (if is_Exception (Fault flt) then Inr None else Inl (Fault flt)),
      record_event (Ev_get u) w)"
  by (simp add: fetch_filing_text_def split: http_result.splits)

theorem insert_unique_branches_witness:
  "insert_unique (example_env (Response 200 ''gz'') (Response 404 ''gone'') (Gunzip_ok acme_index))
       empty_world acme =
     (Inr False, acme\<lparr>ingested_at := Some 101\<rparr>,
      empty_world\<lparr>trace := [Ev_find ''acme-10k'', Ev_utcnow, Ev_get (file_url acme)]\<rparr>) \<and>
   fst (insert_unique (example_env (Response 200 ''gz'') (Response 200 ''body'') (Gunzip_ok acme_index))
       empty_world acme) = Inr True \<and>
   collection (snd (snd (insert_unique
       (example_env (Response 200 ''gz'') (Response 200 ''body'') (Gunzip_ok acme_index))
       empty_world acme))) = [acme\<lparr>ingested_at := Some 101, raw_text := Some ''body''\<rparr>]"
proof -
  let ?e = "example_env (Response 200 ''gz'') (Response 404 ''gone'') (Gunzip_ok acme_index)"
  let ?e' = "example_env (Response 200 ''gz'') (Response 200 ''body'') (Gunzip_ok acme_index)"
  let ?w3 = "empty_world\<lparr>trace := [Ev_find ''acme-10k'', Ev_utcnow, Ev_get (file_url acme)]\<rparr>"
  have m: "mongo ?e (length (trace empty_world)) = None" by (simp add: example_env_def)
  have m': "mongo ?e' (length (trace empty_world)) = None" by (simp add: example_env_def)
  have n: "\<not> stored empty_world (accession acme)" by (simp add: stored_def empty_world_def)
  have f: "fetch_filing_text ?e (before_fetch empty_world acme) (file_url acme) = (Inr None, ?w3)"
    by (simp add: fetch_eval before_fetch_def example_env_def empty_world_def record_event_def
        acme_def)
  have f': "fetch_filing_text ?e' (before_fetch empty_world acme) (file_url acme) =
      (Inr (Some ''body''), ?w3)"
    by (simp add: fetch_eval before_fetch_def example_env_def empty_world_def record_event_def
        acme_def)
  have m3: "mongo ?e' (length (trace ?w3)) = None" by (simp add: example_env_def)
  have s: "stamped ?e empty_world acme = acme\<lparr>ingested_at := Some 101\<rparr>"
    by (simp add: stamped_def example_env_def empty_world_def)
  have s': "stamped ?e' empty_world acme = acme\<lparr>ingested_at := Some 101\<rparr>"
    by (simp add: stamped_def example_env_def empty_world_def)
  have "insert_unique ?e empty_world acme = (Inr False, acme\<lparr>ingested_at := Some 101\<rparr>, ?w3)"
    using insert_unique_branches [OF m, of acme ?w3] n f s by simp
  moreover have "fst (insert_unique ?e' empty_world acme) = Inr True \<and>
    collection (snd (snd (insert_unique ?e' empty_world acme))) =
      [acme\<lparr>ingested_at := Some 101, raw_text := Some ''body''\<rparr>]"
    using insert_unique_branches [OF m', of acme ?w3 "''body''"] n f' m3 s'
    by (simp add: empty_world_def)
  ultimately show ?thesis by simp
qed

text \<open>
  Claim C2 as worded fails in its branch (c): here the accession is absent and the fetch
  succeeds, with status 200 and an empty body, yet the writer returns false and the
  collection stays empty.
\<close>

theorem empty_body_counterexample:
  "\<not> stored empty_world (accession acme) \<and>
   fst (fetch_filing_text
          (example_env (Response 200 ''gz'') (Response 200 '''') (Gunzip_ok acme_index))
          (before_fetch empty_world acme) (file_url acme)) = Inr (Some '''') \<and>
   fst (insert_unique
          (example_env (Response 200 ''gz'') (Response 200 '''') (Gunzip_ok acme_index))
          empty_world acme) = Inr False \<and>
   collection (snd (snd (insert_unique
          (example_env (Response 200 ''gz'') (Response 200 '''') (Gunzip_ok acme_index))
          empty_world acme))) = []"
proof -
  let ?e = "example_env (Response 200 ''gz'') (Response 200 '''') (Gunzip_ok acme_index)"
  have m: "mongo ?e (length (trace empty_world)) = None" by (simp add: example_env_def)
  have n: "\<not> stored empty_world (accession acme)" by (simp add: stored_def empty_world_def)
  have f: "fst (fetch_filing_text ?e (before_fetch empty_world acme) (file_url acme)) =
      Inr (Some '''')"
    by (simp add: fetch_eval before_fetch_def example_env_def empty_world_def record_event_def)
  have f2: "fetch_filing_text ?e (before_fetch empty_world acme) (file_url acme) =
      (Inr (Some ''''), record_event (Ev_get (file_url acme)) (before_fetch empty_world acme))"
    by (simp add: fetch_eval before_fetch_def example_env_def empty_world_def record_event_def)
  have "insert_unique ?e empty_world acme =
      (Inr False, stamped ?e empty_world acme,
       record_event (Ev_get (file_url acme)) (before_fetch empty_world acme))"
    unfolding insert_unique_absent [OF n m] f2 by simp
  then show ?thesis using n f by (simp add: before_fetch_def empty_world_def)
qed

text \<open>
  Claim C10. An absent accession whose text request is answered with status 200 and an
  empty body: the fetch itself succeeds and returns the empty text, and the store writer,
  testing the truth value of the text, returns false and inserts nothing.
\<close>

theorem empty_body_not_inserted:
  assumes "\<not> stored w (accession f)"
    and "mongo e (length (trace w)) = None"
    and "http e (length (trace w) + 2) (file_url f) = Response 200 []"
  shows "fst (fetch_filing_text e (before_fetch w f) (file_url f)) = Inr (Some []) \<and>
         fst (insert_unique e w f) = Inr False \<and>
         collection (snd (snd (insert_unique e w f))) = collection w"
proof -
  have f: "fetch_filing_text e (before_fetch w f) (file_url f) =
      (Inr (Some []), record_event (Ev_get (file_url f)) (before_fetch w f))"
    using assms(3) by (simp add: fetch_eval before_fetch_def)
  have "insert_unique e w f =
      (Inr False, stamped e w f, record_event (Ev_get (file_url f)) (before_fetch w f))"
    unfolding insert_unique_absent [OF assms(1,2)] f by simp
  then show ?thesis using f by (simp add: before_fetch_def)
qed

theorem empty_body_not_inserted_witness:
  "fst (insert_unique
          (example_env (Response 200 ''gz'') (Response 200 '''') (Gunzip_ok acme_index))
          (empty_world\<lparr>collection := [acme\<lparr>accession := ''other''\<rparr>]\<rparr>) acme) = Inr False \<and>
   collection (snd (snd (insert_unique
          (example_env (Response 200 ''gz'') (Response 200 '''') (Gunzip_ok acme_index))
          (empty_world\<lparr>collection := [acme\<lparr>accession := ''other''\<rparr>]\<rparr>) acme))) =
     [acme\<lparr>accession := ''other''\<rparr>]"
proof -
  let ?e = "example_env (Response 200 ''gz'') (Response 200 '''') (Gunzip_ok acme_index)"
  let ?w = "empty_world\<lparr>collection := [acme\<lparr>accession := ''other''\<rparr>]\<rparr>"
  have n: "\<not> stored ?w (accession acme)" by (simp add: stored_def empty_world_def acme_def)
  have m: "mongo ?e (length (trace ?w)) = None" by (simp add: example_env_def)
  have h: "http ?e (length (trace ?w) + 2) (file_url acme) = Response 200 []"
    by (simp add: example_env_def empty_world_def)
  show ?thesis using empty_body_not_inserted [OF n m h] by (simp add: empty_world_def)
qed

text \<open>
  Claim C9. When the accession is absent and the store answers the lookup, the record
  that \<open>insert_unique\<close> leaves behind carries \<open>ingested_at\<close>, on every path: the
  time is the one read right after the lookup and before the text request, as the order
  of the calls in the trace shows. The six fields the parser set are unchanged; the
  record is the stamped one, or the stamped one with a body that is not empty attached.
  Where the fetch gives no text the call returns false, the record is the stamped one
  and nothing is persisted.
\<close>

theorem insert_unique_mutates_record:
  assumes "\<not> stored w (accession f)"
    and "mongo e (length (trace w)) = None"
    and "insert_unique e w f = (r, f', w')"
  shows "ingested_at f' = Some (utcnow e (Suc (length (trace w)))) \<and>
         take (length (trace w) + 3) (trace w') =
           trace w @ [Ev_find (accession f), Ev_utcnow, Ev_get (file_url f)] \<and>
         cik f' = cik f \<and> company f' = company f \<and> form_type f' = form_type f \<and>
         date_filed f' = date_filed f \<and> accession f' = accession f \<and>
         file_url f' = file_url f \<and>
         (f' = stamped e w f \<or>
          (\<exists>body. body \<noteq> [] \<and> f' = (stamped e w f)\<lparr>raw_text := Some body\<rparr>)) \<and>
         (fst (fetch_filing_text e (before_fetch w f) (file_url f)) = Inr None \<longrightarrow>
            r = Inr False \<and> f' = stamped e w f \<and> collection w' = collection w)"
proof -
  let ?w3 = "record_event (Ev_get (file_url f)) (before_fetch w f)"
  obtain r3 where f3: "fetch_filing_text e (before_fetch w f) (file_url f) = (r3, ?w3)"
    using fetch_trace [of e "before_fetch w f" "file_url f"]
    by (cases "fetch_filing_text e (before_fetch w f) (file_url f)") auto
  have t3: "trace ?w3 = trace w @ [Ev_find (accession f), Ev_utcnow, Ev_get (file_url f)]"
    by (simp add: before_fetch_def)
  have c3: "collection ?w3 = collection w" by (simp add: before_fetch_def)
  note u = assms(3) [unfolded insert_unique_absent [OF assms(1,2)] f3]
  have shape: "(f' = stamped e w f \<or>
      (\<exists>body. body \<noteq> [] \<and> f' = (stamped e w f)\<lparr>raw_text := Some body\<rparr>)) \<and>
      take (length (trace w) + 3) (trace w') = trace ?w3 \<and>
      (r3 = Inr None \<longrightarrow> r = Inr False \<and> f' = stamped e w f \<and> w' = ?w3)"
  proof (cases r3)
    case (Inl ex)
    with u show ?thesis by (auto simp: before_fetch_def)
  next
    case (Inr tx)
    show ?thesis
    proof (cases "truthy tx")
      case False
      with u Inr show ?thesis by (auto simp: before_fetch_def)
    next
      case True
      then obtain body where b: "tx = Some body" "body \<noteq> []" by (cases tx) auto
      obtain r4 w4 where i: "insert_one e ?w3 ((stamped e w f)\<lparr>raw_text := tx\<rparr>) = (r4, w4)"
        by (cases "insert_one e ?w3 ((stamped e w f)\<lparr>raw_text := tx\<rparr>)")
      have t4: "trace w4 = trace ?w3 @ [Ev_insert ((stamped e w f)\<lparr>raw_text := tx\<rparr>)]"
        using i by (auto simp: insert_one_def split: option.splits)
      from u Inr True i have "f' = (stamped e w f)\<lparr>raw_text := tx\<rparr>" and "w' = w4"
        by (auto split: sum.splits)
      with b t4 t3 Inr show ?thesis by auto
    qed
  qed
  then have "f' = stamped e w f \<or> (\<exists>body. f' = (stamped e w f)\<lparr>raw_text := Some body\<rparr>)" by auto
  then have fields: "ingested_at f' = Some (utcnow e (Suc (length (trace w)))) \<and>
      cik f' = cik f \<and> company f' = company f \<and> form_type f' = form_type f \<and>
      date_filed f' = date_filed f \<and> accession f' = accession f \<and> file_url f' = file_url f"
    by (auto simp: stamped_def)
  from shape f3 c3 t3 fields show ?thesis by auto
qed

theorem insert_unique_mutates_record_witness:
  "ingested_at (fst (snd (insert_unique
       (example_env (Response 200 ''gz'') (Response 404 ''gone'') (Gunzip_ok acme_index))
       empty_world acme))) = Some 101 \<and>
   fst (insert_unique
       (example_env (Response 200 ''gz'') (Response 404 ''gone'') (Gunzip_ok acme_index))
       empty_world acme) = Inr False"
proof -
  let ?e = "example_env (Response 200 ''gz'') (Response 404 ''gone'') (Gunzip_ok acme_index)"
  let ?x = "insert_unique ?e empty_world acme"
  have n: "\<not> stored empty_world (accession acme)" by (simp add: stored_def empty_world_def)
  have m: "mongo ?e (length (trace empty_world)) = None" by (simp add: example_env_def)
  have x: "?x = (fst ?x, fst (snd ?x), snd (snd ?x))" by simp
  have f: "fst (fetch_filing_text ?e (before_fetch empty_world acme) (file_url acme)) = Inr None"
    by (simp add: fetch_eval before_fetch_def example_env_def empty_world_def)
  have u: "utcnow ?e (Suc (length (trace empty_world))) = 101"
    by (simp add: example_env_def empty_world_def)
  note t = insert_unique_mutates_record [OF n m x]
  have "ingested_at (fst (snd ?x)) = Some (utcnow ?e (Suc (length (trace empty_world))))"
    using t by blast
  then have a: "ingested_at (fst (snd ?x)) = Some 101" by (simp only: u)
  have "fst ?x = Inr False" using t f by blast
  with a show ?thesis by blast
qed

section \<open>The text fetch\<close>

text \<open>
  Claim C7. On status 200 the text fetch returns the body; on any other status, and on
  an exception of the transport (an instance of \<^verbatim>\<open>Exception\<close> raised inside the request), it
  returns \<^verbatim>\<open>None\<close> and raises nothing. The only thing that can leave the function as an
  exception is an interrupt, which is neither. So for an absent accession whose request
  meets such a status or such an exception the store writer returns false, persisting
  nothing, and the loop of the driver goes on.
\<close>

theorem fetch_filing_text_absence:
  "(http e (length (trace w)) url = Response 200 body \<longrightarrow>
      fst (fetch_filing_text e w url) = Inr (Some body)) \<and>
   (http e (length (trace w)) url = Response st body \<and> st \<noteq> 200 \<longrightarrow>
      fst (fetch_filing_text e w url) = Inr None) \<and>
   (http e (length (trace w)) url = Raises (Library_error c) \<longrightarrow>
      fst (fetch_filing_text e w url) = Inr None) \<and>
   (fst (fetch_filing_text e w url) = Inl ex \<longrightarrow>
      ex = Fault KeyboardInterrupt \<and> http e (length (trace w)) url = Raises KeyboardInterrupt) \<and>
   (\<not> stored w' (accession f) \<and> mongo e (length (trace w')) = None \<and>
    ((\<exists>st' body'. http e (length (trace w') + 2) (file_url f) = Response st' body' \<and> st' \<noteq> 200) \<or>
     (\<exists>c'. http e (length (trace w') + 2) (file_url f) = Raises (Library_error c'))) \<longrightarrow>
      fst (insert_unique e w' f) = Inr False \<and>
      collection (snd (snd (insert_unique e w' f))) = collection w')"
proof (intro conjI impI)
  assume "http e (length (trace w)) url = Response 200 body"
  then show "fst (fetch_filing_text e w url) = Inr (Some body)" by (simp add: fetch_eval)
next
  assume "http e (length (trace w)) url = Response st body \<and> st \<noteq> 200"
  then show "fst (fetch_filing_text e w url) = Inr None" by (simp add: fetch_eval)
next
  assume "http e (length (trace w)) url = Raises (Library_error c)"
  then show "fst (fetch_filing_text e w url) = Inr None" by (simp add: fetch_eval)
next
  assume h: "fst (fetch_filing_text e w url) = Inl ex"
  then show "ex = Fault KeyboardInterrupt"
    by (cases "http e (length (trace w)) url")
      (auto simp: fetch_eval split: if_splits elim: is_Exception.elims)
  from h show "http e (length (trace w)) url = Raises KeyboardInterrupt"
    by (cases "http e (length (trace w)) url")
      (auto simp: fetch_eval split: if_splits elim: is_Exception.elims)
next
  assume h: "\<not> stored w' (accession f) \<and> mongo e (length (trace w')) = None \<and>
    ((\<exists>st' body'. http e (length (trace w') + 2) (file_url f) = Response st' body' \<and> st' \<noteq> 200) \<or>
     (\<exists>c'. http e (length (trace w') + 2) (file_url f) = Raises (Library_error c')))"
  then have f: "fetch_filing_text e (before_fetch w' f) (file_url f) =
      (Inr None, record_event (Ev_get (file_url f)) (before_fetch w' f))"
    by (auto simp: fetch_eval before_fetch_def)
  from h have n: "\<not> stored w' (accession f)" and m: "mongo e (length (trace w')) = None"
    by simp_all
  have u: "insert_unique e w' f =
      (Inr False, stamped e w' f, record_event (Ev_get (file_url f)) (before_fetch w' f))"
    unfolding insert_unique_absent [OF n m] f by simp
  show "fst (insert_unique e w' f) = Inr False" by (simp add: u)
  show "collection (snd (snd (insert_unique e w' f))) = collection w'"
    by (simp add: u before_fetch_def)
qed

theorem fetch_filing_text_absence_witness:
  "fst (fetch_filing_text
         (example_env (Response 200 ''body'') (Response 503 ''busy'') (Gunzip_ok acme_index))
         empty_world ''u'') = Inr (Some ''body'') \<and>
   fst (fetch_filing_text
         (example_env (Response 503 ''busy'') (Response 200 ''x'') (Gunzip_ok acme_index))
         empty_world ''u'') = Inr None \<and>
   fst (fetch_filing_text
         (example_env (Raises (Library_error ''ConnectionError'')) (Response 200 ''x'')
            (Gunzip_ok acme_index))
         empty_world ''u'') = Inr None \<and>
   fst (insert_unique
         (example_env (Response 200 ''gz'') (Raises (Library_error ''Timeout''))
            (Gunzip_ok acme_index))
         empty_world acme) = Inr False"
proof -
  let ?a = "example_env (Response 200 ''body'') (Response 503 ''busy'') (Gunzip_ok acme_index)"
  let ?b = "example_env (Response 503 ''busy'') (Response 200 ''x'') (Gunzip_ok acme_index)"
  let ?c = "example_env (Raises (Library_error ''ConnectionError'')) (Response 200 ''x'')
      (Gunzip_ok acme_index)"
  let ?d = "example_env (Response 200 ''gz'') (Raises (Library_error ''Timeout''))
      (Gunzip_ok acme_index)"
  have a: "http ?a (length (trace empty_world)) ''u'' = Response 200 ''body''"
    by (simp add: example_env_def empty_world_def)
  have b: "http ?b (length (trace empty_world)) ''u'' = Response 503 ''busy'' \<and> (503::int) \<noteq> 200"
    by (simp add: example_env_def empty_world_def)
  have c: "http ?c (length (trace empty_world)) ''u'' = Raises (Library_error ''ConnectionError'')"
    by (simp add: example_env_def empty_world_def)
  have d: "\<not> stored empty_world (accession acme) \<and> mongo ?d (length (trace empty_world)) = None \<and>
    ((\<exists>st' body'. http ?d (length (trace empty_world) + 2) (file_url acme) = Response st' body' \<and> st' \<noteq> 200) \<or>
     (\<exists>c'. http ?d (length (trace empty_world) + 2) (file_url acme) = Raises (Library_error c')))"
    by (simp add: example_env_def empty_world_def stored_def)
  have "fst (fetch_filing_text ?a empty_world ''u'') = Inr (Some ''body'')"
    using fetch_filing_text_absence [where e = ?a and w = empty_world and url = "''u''" and body = "''body''"] a by blast
  moreover have "fst (fetch_filing_text ?b empty_world ''u'') = Inr None"
    using fetch_filing_text_absence [where e = ?b and w = empty_world and url = "''u''" and st = 503 and body = "''busy''"] b by blast
  moreover have "fst (fetch_filing_text ?c empty_world ''u'') = Inr None"
    using fetch_filing_text_absence [where e = ?c and w = empty_world and url = "''u''" and c = "''ConnectionError''"] c by blast
  moreover have "fst (insert_unique ?d empty_world acme) = Inr False"
    using fetch_filing_text_absence [where e = ?d and w' = empty_world and f = acme] d by blast
  ultimately show ?thesis by simp
qed

section \<open>The archive download\<close>

lemma concat_iter_content: "0 < n \<Longrightarrow> concat (iter_content n s) = s"
proof (induction n s rule: iter_content.induct)
  case (1 n s)
  show ?case
  proof (cases "s = []")
    case True
    then show ?thesis by (simp add: iter_content.simps [of n "[]"])
  next
    case False
    with 1 show ?thesis by (simp add: iter_content.simps [of n s])
  qed
qed

lemma foldl_append_concat: "foldl (@) a xs = a @ concat xs"
  by (induction xs arbitrary: a) auto

lemma written_body: "foldl (@) [] (iter_content 1024 body) = body"
  by (simp add: foldl_append_concat concat_iter_content)

lemma download_gz_eval:
  "download_gz e w url dest =
     (case http e (length (trace w)) url of
        Raises flt \<Rightarrow> (Inl (Fault flt), record_event (Ev_get url) w)
      | Response st body \<Rightarrow>
          if st \<noteq> 200
          then (Inl (Py_Exception (''Download failed with status '' @ str_int st)),
                record_event (Ev_get url) w)
          else (Inr (), (record_event (Ev_get url) w)\<lparr>files := (files w)(dest \<mapsto> body)\<rparr>))"
  by (simp add: download_gz_def written_body split: http_result.splits)

lemma main_download_failure:
  assumes "download_gz e (make_tmpdir (tmpdir e) w) (fst (get_today_idx_url (today e)))
             (tmpdir e @ ''/'' @ snd (get_today_idx_url (today e))) = (Inl ex, w1)"
  shows "main_body e w = (Inl ex, cleanup (tmpdir e) w1)"
proof -
  obtain url filename where g: "get_today_idx_url (today e) = (url, filename)"
    by (cases "get_today_idx_url (today e)")
  with assms show ?thesis by (simp add: main_body_def Let_def)
qed

text \<open>
  Claim C6. \<open>download_gz\<close> raises its download failure exactly when the request is
  answered with a status other than 200, the status the code takes as success. Whenever
  it raises, the files are as they were, so no body reached the destination; on status
  200 the destination holds the body. When the request for the index archive is answered
  with another status, the driver ends the run there: the request is the only call made,
  nothing is parsed or stored, and the failure is what the driver reports.
\<close>

theorem download_gz_raises_iff:
  "((\<exists>s. fst (download_gz e w url dest) =
           Inl (Py_Exception (''Download failed with status '' @ str_int s))) \<longleftrightarrow>
    (\<exists>s b. http e (length (trace w)) url = Response s b \<and> s \<noteq> 200)) \<and>
   (http e (length (trace w)) url = Response st body \<and> st \<noteq> 200 \<longrightarrow>
      download_gz e w url dest =
        (Inl (Py_Exception (''Download failed with status '' @ str_int st)),
         record_event (Ev_get url) w)) \<and>
   (http e (length (trace w)) url = Response 200 body \<longrightarrow>
      fst (download_gz e w url dest) = Inr () \<and>
      files (snd (download_gz e w url dest)) dest = Some body) \<and>
   ((\<exists>ex. fst (download_gz e w url dest) = Inl ex) \<longrightarrow>
      files (snd (download_gz e w url dest)) = files w) \<and>
   (http e (length (trace w)) (fst (get_today_idx_url (today e))) = Response st body \<and>
    st \<noteq> 200 \<longrightarrow>
      fst (main e w) =
        Inr (Fatal (Py_Exception (''Download failed with status '' @ str_int st))) \<and>
      collection (snd (main e w)) = collection w \<and>
      trace (snd (main e w)) = trace w @ [Ev_get (fst (get_today_idx_url (today e)))])"
proof (intro conjI impI)
  show "(\<exists>s. fst (download_gz e w url dest) =
           Inl (Py_Exception (''Download failed with status '' @ str_int s))) \<longleftrightarrow>
    (\<exists>s b. http e (length (trace w)) url = Response s b \<and> s \<noteq> 200)"
    by (cases "http e (length (trace w)) url") (auto simp: download_gz_eval)
next
  assume "http e (length (trace w)) url = Response st body \<and> st \<noteq> 200"
  then show "download_gz e w url dest =
        (Inl (Py_Exception (''Download failed with status '' @ str_int st)),
         record_event (Ev_get url) w)"
    by (simp add: download_gz_eval)
next
  assume h: "http e (length (trace w)) url = Response 200 body"
  then show "fst (download_gz e w url dest) = Inr ()" by (simp add: download_gz_eval)
  from h show "files (snd (download_gz e w url dest)) dest = Some body"
    by (simp add: download_gz_eval)
next
  assume "\<exists>ex. fst (download_gz e w url dest) = Inl ex"
  then show "files (snd (download_gz e w url dest)) = files w"
    by (cases "http e (length (trace w)) url") (auto simp: download_gz_eval split: if_splits)
next
  let ?url = "fst (get_today_idx_url (today e))"
  let ?ex = "Py_Exception (''Download failed with status '' @ str_int st)"
  assume "http e (length (trace w)) ?url = Response st body \<and> st \<noteq> 200"
  then have "download_gz e (make_tmpdir (tmpdir e) w) ?url
      (tmpdir e @ ''/'' @ snd (get_today_idx_url (today e))) =
      (Inl ?ex, record_event (Ev_get ?url) (make_tmpdir (tmpdir e) w))"
    by (simp add: download_gz_eval)
  then have b: "main_body e w =
      (Inl ?ex, cleanup (tmpdir e) (record_event (Ev_get ?url) (make_tmpdir (tmpdir e) w)))"
    by (rule main_download_failure)
  show "fst (main e w) = Inr (Fatal ?ex)" by (simp add: main_def b)
  show "collection (snd (main e w)) = collection w" by (simp add: main_def b)
  show "trace (snd (main e w)) = trace w @ [Ev_get ?url]" by (simp add: main_def b)
qed

theorem download_gz_raises_iff_witness:
  "download_gz (example_env (Response 404 ''Not Found'') (Response 200 ''x'') (Gunzip_ok acme_index))
       empty_world ''u'' ''/tmp/d/master.idx.gz'' =
     (Inl (Py_Exception ''Download failed with status 404''),
      empty_world\<lparr>trace := [Ev_get ''u'']\<rparr>) \<and>
   fst (main (example_env (Response 404 ''Not Found'') (Response 200 ''x'') (Gunzip_ok acme_index))
       empty_world) = Inr (Fatal (Py_Exception ''Download failed with status 404'')) \<and>
   files (snd (download_gz
       (example_env (Response 200 ''gz'') (Response 200 ''x'') (Gunzip_ok acme_index))
       empty_world ''u'' ''/tmp/d/master.idx.gz'')) ''/tmp/d/master.idx.gz'' = Some ''gz''"
proof -
  let ?e = "example_env (Response 404 ''Not Found'') (Response 200 ''x'') (Gunzip_ok acme_index)"
  let ?e' = "example_env (Response 200 ''gz'') (Response 200 ''x'') (Gunzip_ok acme_index)"
  have s: "str_int 404 = ''404''"
    by (simp add: str_int_def str_nat.simps digit_char_def)
  have h: "\<And>u. http ?e (length (trace empty_world)) u = Response 404 ''Not Found'' \<and> (404::int) \<noteq> 200"
    by (simp add: example_env_def empty_world_def)
  have h': "http ?e' (length (trace empty_world)) ''u'' = Response 200 ''gz''"
    by (simp add: example_env_def empty_world_def)
  have "download_gz ?e empty_world ''u'' ''/tmp/d/master.idx.gz'' =
     (Inl (Py_Exception ''Download failed with status 404''), empty_world\<lparr>trace := [Ev_get ''u'']\<rparr>)"
    using download_gz_raises_iff [where e = ?e and w = empty_world and url = "''u''"
        and st = 404 and body = "''Not Found''" and dest = "''/tmp/d/master.idx.gz''"] h
    by (simp add: s record_event_def empty_world_def)
  moreover have "fst (main ?e empty_world) = Inr (Fatal (Py_Exception ''Download failed with status 404''))"
    using download_gz_raises_iff [where e = ?e and w = empty_world
        and st = 404 and body = "''Not Found''"] h
    by (simp add: s)
  moreover have "files (snd (download_gz ?e' empty_world ''u'' ''/tmp/d/master.idx.gz''))
      ''/tmp/d/master.idx.gz'' = Some ''gz''"
    using download_gz_raises_iff [where e = ?e' and w = empty_world and url = "''u''"
        and body = "''gz''" and dest = "''/tmp/d/master.idx.gz''"] h'
    by simp
  ultimately show ?thesis by simp
qed

section \<open>The driver and its handler\<close>

lemma is_Exception_iff: "is_Exception ex = (ex \<noteq> Fault KeyboardInterrupt)"
  by (cases ex rule: is_Exception.cases) auto

lemma parse_line_no_interrupt: "parse_line l \<noteq> Inl (Fault flt)"
  by (auto simp: parse_line_def last_elem_def Let_def split: list.splits sum.splits if_splits)

lemma parse_lines_no_interrupt: "parse_lines acc ls \<noteq> Inl (Fault flt)"
proof (induction ls arbitrary: acc)
  case Nil
  then show ?case by simp
next
  case (Cons l ls)
  then show ?case
    using parse_line_no_interrupt [of l flt] by (auto split: sum.splits)
qed

lemma parse_idx_no_interrupt: "parse_idx e w p = Inl ex \<Longrightarrow> is_Exception ex"
  using parse_lines_no_interrupt
  by (auto simp: parse_idx_def is_Exception_iff split: option.splits)

lemma download_no_interrupt:
  "interrupt_free e \<Longrightarrow> download_gz e w u p = (Inl ex, w1) \<Longrightarrow> is_Exception ex"
  by (cases "http e (length (trace w)) u")
    (auto simp: download_gz_eval interrupt_free_def is_Exception_iff split: if_splits)

lemma decompress_no_interrupt:
  "interrupt_free e \<Longrightarrow> decompress_gz e w s d = (Inl ex, w1) \<Longrightarrow> is_Exception ex"
  by (auto simp: decompress_gz_def interrupt_free_def is_Exception_iff
      split: option.splits gunzip_result.splits if_splits)

lemma find_one_no_interrupt:
  "interrupt_free e \<Longrightarrow> find_one e w a = (Inl ex, w1) \<Longrightarrow> is_Exception ex"
  by (auto simp: find_one_def interrupt_free_def is_Exception_iff split: option.splits)

lemma insert_one_no_interrupt:
  "interrupt_free e \<Longrightarrow> insert_one e w d = (Inl ex, w1) \<Longrightarrow> is_Exception ex"
  by (auto simp: insert_one_def interrupt_free_def is_Exception_iff split: option.splits)

lemma fetch_no_interrupt:
  "interrupt_free e \<Longrightarrow> fetch_filing_text e w u = (Inl ex, w1) \<Longrightarrow> is_Exception ex"
  by (cases "http e (length (trace w)) u")
    (auto simp: fetch_eval interrupt_free_def is_Exception_iff split: if_splits)

lemma insert_unique_no_interrupt:
  assumes "interrupt_free e" and "insert_unique e w f = (Inl ex, f', w')"
  shows "is_Exception ex"
  using assms(2) find_one_no_interrupt [OF assms(1)] insert_one_no_interrupt [OF assms(1)]
    fetch_no_interrupt [OF assms(1)]
  by (auto simp: insert_unique_def datetime_utcnow_def Let_def
      split: prod.splits sum.splits option.splits if_splits)

lemma insert_all_no_interrupt:
  "interrupt_free e \<Longrightarrow> insert_all e w n fs = (Inl ex, w') \<Longrightarrow> is_Exception ex"
proof (induction fs arbitrary: w n)
  case Nil
  then show ?case by simp
next
  case (Cons f fs)
  obtain r1 f1 w1 where u: "insert_unique e w f = (r1, f1, w1)"
    by (cases "insert_unique e w f") auto
  show ?case
  proof (cases r1)
    case (Inl ex1)
    with Cons.prems u have "ex = ex1" by simp
    with Inl u Cons.prems(1) show ?thesis using insert_unique_no_interrupt by blast
  next
    case (Inr b)
    with Cons.prems u have "insert_all e w1 (if b then n + 1 else n) fs = (Inl ex, w')" by simp
    with Cons.IH Cons.prems(1) show ?thesis by blast
  qed
qed

lemma main_body_no_interrupt:
  assumes "interrupt_free e" and "main_body e w = (Inl ex, w')"
  shows "is_Exception ex"
proof -
  obtain url filename where g: "get_today_idx_url (today e) = (url, filename)"
    by (cases "get_today_idx_url (today e)")
  show ?thesis
    using assms(2) download_no_interrupt [OF assms(1)] decompress_no_interrupt [OF assms(1)]
      parse_idx_no_interrupt insert_all_no_interrupt [OF assms(1)]
    by (auto simp: main_body_def g Let_def split: prod.splits sum.splits)
qed

text \<open>
  Claim C8, as the driver has it. The handler of \<open>main\<close> is \<^verbatim>\<open>except Exception\<close>: every
  exception leaving the body of the \<^verbatim>\<open>try\<close> that is an instance of \<^verbatim>\<open>Exception\<close> is
  caught and reported, and \<open>main\<close> returns normally; a run that raised nothing returns
  normally with its count. The only exception \<open>main\<close> lets through is an interrupt.
  In an environment where no interrupt arrives, whichever stage fails (the download, the
  decompression, the parser, the store or the text fetch), \<open>main\<close> returns normally.
\<close>

theorem main_suppresses_exceptions:
  "(main_body e w = (Inl ex, w') \<and> is_Exception ex \<longrightarrow> main e w = (Inr (Fatal ex), w')) \<and>
   (main_body e w = (Inr n, w') \<longrightarrow> main e w = (Inr (Inserted n), w')) \<and>
   (fst (main e w) = Inl ex' \<longrightarrow> ex' = Fault KeyboardInterrupt) \<and>
   (interrupt_free e \<longrightarrow> (\<exists>out. fst (main e w) = Inr out))"
proof (intro conjI impI)
  assume "main_body e w = (Inl ex, w') \<and> is_Exception ex"
  then show "main e w = (Inr (Fatal ex), w')" by (simp add: main_def)
next
  assume "main_body e w = (Inr n, w')"
  then show "main e w = (Inr (Inserted n), w')" by (simp add: main_def)
next
  assume "fst (main e w) = Inl ex'"
  then show "ex' = Fault KeyboardInterrupt"
    by (cases "main_body e w")
      (auto simp: main_def is_Exception_iff split: sum.splits if_splits)
next
  assume i: "interrupt_free e"
  obtain r w1 where b: "main_body e w = (r, w1)" by (cases "main_body e w")
  show "\<exists>out. fst (main e w) = Inr out"
  proof (cases r)
    case (Inl x)
    with b i have "is_Exception x" using main_body_no_interrupt by blast
    with b Inl show ?thesis by (simp add: main_def)
  next
    case (Inr k)
    with b show ?thesis by (simp add: main_def)
  qed
qed

text \<open>
  Claim C8 as worded (every exception leaving the pipeline is caught) fails for an
  interrupt: \<^verbatim>\<open>KeyboardInterrupt\<close> is not an instance of \<^verbatim>\<open>Exception\<close>, so when it arrives
  during the download it passes the handler and leaves \<open>main\<close>.
\<close>

theorem keyboard_interrupt_counterexample:
  "fst (main (example_env (Raises KeyboardInterrupt) (Response 200 ''body'') (Gunzip_ok acme_index))
      empty_world) = Inl (Fault KeyboardInterrupt)"
proof -
  let ?e = "example_env (Raises KeyboardInterrupt) (Response 200 ''body'') (Gunzip_ok acme_index)"
  let ?url = "fst (get_today_idx_url (today ?e))"
  have "http ?e (length (trace empty_world)) ?url = Raises KeyboardInterrupt"
    by (simp add: example_env_def empty_world_def)
  then have "download_gz ?e (make_tmpdir (tmpdir ?e) empty_world) ?url
      (tmpdir ?e @ ''/'' @ snd (get_today_idx_url (today ?e))) =
      (Inl (Fault KeyboardInterrupt),
       record_event (Ev_get ?url) (make_tmpdir (tmpdir ?e) empty_world))"
    by (simp add: download_gz_eval)
  then have "main_body ?e empty_world =
      (Inl (Fault KeyboardInterrupt),
       cleanup (tmpdir ?e) (record_event (Ev_get ?url) (make_tmpdir (tmpdir ?e) empty_world)))"
    by (rule main_download_failure)
  then show ?thesis by (simp add: main_def)
qed

theorem main_suppresses_exceptions_witness:
  "interrupt_free (store_down_env (Response 200 ''gz'') (Gunzip_ok acme_index)) \<and>
   (\<exists>out. fst (main (store_down_env (Response 200 ''gz'') (Gunzip_ok acme_index)) empty_world) =
      Inr out)"
proof -
  have i: "interrupt_free (store_down_env (Response 200 ''gz'') (Gunzip_ok acme_index))"
    by (simp add: interrupt_free_def store_down_env_def example_env_def)
  show ?thesis
    using main_suppresses_exceptions
      [where e = "store_down_env (Response 200 ''gz'') (Gunzip_ok acme_index)"
        and w = empty_world] i
    by blast
qed

text \<open>A run in which the store is down: the failure of the lookup is caught and reported.\<close>

lemma store_failure_example:
  "fst (main (store_down_env (Response 200 ''gz'') (Gunzip_ok acme_index)) empty_world) =
     Inr (Fatal (Fault (Library_error ''ServerSelectionTimeoutError'')))"
  by code_simp

section \<open>The index locator\<close>


















section \<open>Illustrations\<close>

text \<open>
  For a file name whose last segment is a name without a dot followed by
  \<^verbatim>\<open>.txt\<close>, as the index has them, deleting every occurrence and stripping the
  suffix agree.
\<close>

lemma py_replace_plain_name:
  "CHR ''.'' \<notin> set base \<Longrightarrow> py_replace ''.txt'' '''' (base @ ''.txt'') = base"
  by (induction base) auto

lemma spec_strip_suffix_plain_name: "spec_strip_suffix ''.txt'' (base @ ''.txt'') = base"
  by (simp add: spec_strip_suffix_def)

text \<open>
  Two runs over the same index, the store kept between them: the first inserts the one
  accepted filing, the second finds it and inserts nothing.
\<close>

lemma two_runs_example:
  "copies ''acme-10k''
     (snd (main (example_env (Response 200 ''gz'') (Response 200 ''body'') (Gunzip_ok acme_index))
        (snd (main (example_env (Response 200 ''gz'') (Response 200 ''body'')
                      (Gunzip_ok acme_index)) empty_world)))) = 1"
  by code_simp

text \<open>
  The accession is the key of the store writer: of the two filings that share one, a run
  stores the first and drops the second.
\<close>

lemma accession_collision_example:
  "map file_url (collection (snd (main
      (example_env (Response 200 ''gz'') (Response 200 ''body'') (Gunzip_ok inner_suffix_index))
      empty_world))) = [''https://www.sec.gov/Archives/p/a.txt.bak.txt'']"
  by code_simp

text \<open>
  A temporary directory below a directory whose name contains \<^verbatim>\<open>.gz\<close>: the path of
  the index lies in a directory that is not there, and the run ends with the failure to
  open it.
\<close>

lemma missing_directory_example:
  "fst (main
      ((example_env (Response 200 ''gz'') (Response 200 ''body'') (Gunzip_ok acme_index))
         \<lparr>tmpdir := ''/tmp/x.gz/tmpk3x9''\<rparr>)
      empty_world) = Inr (Fatal FileNotFoundError)"
  by code_simp

end
